theory Spec2Isabelle
  imports Main "HOL-Library.Sublist"
begin

section \<open>The in-memory store of StoryStash and its notification matcher\<close>

text \<open>
  The development embeds \<^verbatim>\<open>MemStorage\<close> (server/storage.ts), the row types of
  shared/schema.ts and \<^verbatim>\<open>NotificationService.checkForNewBooks\<close>. Every
  method of the class is a function from the store to a result and the new store.
  Identifiers are JavaScript numbers holding integers (\<open>int\<close>); a \<^verbatim>\<open>Date\<close>
  is its epoch time (\<open>int\<close>), and \<^verbatim>\<open>new Date()\<close> is an argument \<open>now\<close> of
  the method that reads the clock. A nullable column is an \<open>option\<close>; \<open>None\<close>
  stands for \<^verbatim>\<open>null\<close> and for an absent property alike.
\<close>

subsection \<open>JavaScript \<^verbatim>\<open>Map<number, T>\<close>\<close>

text \<open>
  A \<^verbatim>\<open>Map\<close> iterates in insertion order; \<^verbatim>\<open>set\<close> on a present key
  replaces the value where it stands, on a new key appends; \<^verbatim>\<open>delete\<close> removes
  the entry of the key.
\<close>

type_synonym 'a jsmap = "(int \<times> 'a) list"

definition map_values :: "'a jsmap \<Rightarrow> 'a list" where
  "map_values m = map snd m"

definition map_keys :: "'a jsmap \<Rightarrow> int list" where
  "map_keys m = map fst m"

definition map_get :: "'a jsmap \<Rightarrow> int \<Rightarrow> 'a option" where
  "map_get m k = map_of m k"

fun map_set :: "'a jsmap \<Rightarrow> int \<Rightarrow> 'a \<Rightarrow> 'a jsmap" where
  "map_set [] k v = [(k, v)]"
| "map_set ((k', v') # m) k v =
     (if k' = k then (k, v) # m else (k', v') # map_set m k v)"

definition map_delete :: "'a jsmap \<Rightarrow> int \<Rightarrow> 'a jsmap" where
  "map_delete m k = filter (\<lambda>e. fst e \<noteq> k) m"

subsection \<open>Row types (shared/schema.ts)\<close>

record User =
  user_id :: int
  username :: string
  password :: string

record InsertUser =
  iu_username :: string
  iu_password :: string

record Book =
  book_id :: int
  googleId :: string
  title :: string
  author :: string
  description :: "string option"
  thumbnail :: "string option"
  book_categories :: "string list option"
  ageRange :: "string option"
  publishedDate :: "string option"
  rating :: "int option"
  isNew :: "bool option"

record InsertBook =
  ib_googleId :: string
  ib_title :: string
  ib_author :: string
  ib_description :: "string option"
  ib_thumbnail :: "string option"
  ib_categories :: "string list option"
  ib_ageRange :: "string option"
  ib_publishedDate :: "string option"
  ib_rating :: "int option"
  ib_isNew :: "bool option"

text \<open>
  \<^verbatim>\<open>Partial<InsertBook>\<close>: the outer \<open>None\<close> is a property that the update does
  not carry.
\<close>

record PartialInsertBook =
  pb_googleId :: "string option"
  pb_title :: "string option"
  pb_author :: "string option"
  pb_description :: "string option option"
  pb_thumbnail :: "string option option"
  pb_categories :: "string list option option"
  pb_ageRange :: "string option option"
  pb_publishedDate :: "string option option"
  pb_rating :: "int option option"
  pb_isNew :: "bool option option"

record UserPreferences =
  prefs_id :: int
  prefs_userId :: int
  preferredCategories :: "string list option"
  preferredAgeRanges :: "string list option"
  notificationsEnabled :: "bool option"

record InsertUserPreferences =
  ip_userId :: int
  ip_preferredCategories :: "string list option"
  ip_preferredAgeRanges :: "string list option"
  ip_notificationsEnabled :: "bool option"

record PartialInsertUserPreferences =
  pp_userId :: "int option"
  pp_preferredCategories :: "string list option option"
  pp_preferredAgeRanges :: "string list option option"
  pp_notificationsEnabled :: "bool option option"

record Favorite =
  fav_id :: int
  fav_userId :: int
  fav_bookId :: int
  fav_createdAt :: int

record InsertFavorite =
  if_userId :: int
  if_bookId :: int

text \<open>
  The store writes \<^verbatim>\<open>isRead\<close> and \<^verbatim>\<open>createdAt\<close> of every notification it
  holds itself, with a boolean and a date. The matcher builds its notification without
  a \<^verbatim>\<open>type\<close>, so the property may be absent.
\<close>

record Notification =
  n_id :: int
  n_userId :: int
  n_title :: string
  n_message :: string
  n_type :: "string option"
  n_isRead :: bool
  n_createdAt :: int
  n_bookId :: "int option"

record InsertNotification =
  in_userId :: int
  in_title :: string
  in_message :: string
  in_type :: "string option"
  in_bookId :: "int option"

record RecentlyViewed =
  rv_id :: int
  rv_userId :: int
  rv_bookId :: int
  rv_viewedAt :: int

record InsertRecentlyViewed =
  irv_userId :: int
  irv_bookId :: int

record Author =
  author_id :: int
  author_name :: string
  bio :: "string option"
  photo :: "string option"

record InsertAuthor =
  ia_name :: string
  ia_bio :: "string option"
  ia_photo :: "string option"

record BookSeries =
  series_id :: int
  series_name :: string
  series_description :: "string option"

record InsertBookSeries =
  is_name :: string
  is_description :: "string option"

record FollowingAuthor =
  fa_id :: int
  fa_userId :: int
  fa_authorId :: int
  fa_followedAt :: int

record InsertFollowingAuthor =
  ifa_userId :: int
  ifa_authorId :: int

record FollowingSeries =
  fs_id :: int
  fs_userId :: int
  fs_seriesId :: int
  fs_followedAt :: int

record InsertFollowingSeries =
  ifs_userId :: int
  ifs_seriesId :: int

record FollowingCategory =
  fc_id :: int
  fc_userId :: int
  fc_category :: string
  fc_followedAt :: int

record InsertFollowingCategory =
  ifc_userId :: int
  ifc_category :: string

subsection \<open>The store\<close>

record MemStorage =
  users :: "User jsmap"
  books :: "Book jsmap"
  userPreferences :: "UserPreferences jsmap"
  favorites :: "Favorite jsmap"
  notifications :: "Notification jsmap"
  recentlyViewed :: "RecentlyViewed jsmap"
  authors :: "Author jsmap"
  bookSeries :: "BookSeries jsmap"
  followingAuthors :: "FollowingAuthor jsmap"
  followingSeries :: "FollowingSeries jsmap"
  followingCategories :: "FollowingCategory jsmap"
  userId :: int
  bookId :: int
  userPreferencesId :: int
  favoriteId :: int
  notificationId :: int
  recentlyViewedId :: int
  authorId :: int
  bookSeriesId :: int
  followingAuthorId :: int
  followingSeriesId :: int
  followingCategoryId :: int

subsection \<open>Users and preferences\<close>

definition getUser :: "int \<Rightarrow> MemStorage \<Rightarrow> User option" where
  "getUser i s = map_get (users s) i"

definition getUserByUsername :: "string \<Rightarrow> MemStorage \<Rightarrow> User option" where
  "getUserByUsername name s = find (\<lambda>user. username user = name) (map_values (users s))"

definition getUserPreferences :: "int \<Rightarrow> MemStorage \<Rightarrow> UserPreferences option" where
  "getUserPreferences uid s =
     find (\<lambda>prefs. prefs_userId prefs = uid) (map_values (userPreferences s))"

definition createUserPreferences ::
  "InsertUserPreferences \<Rightarrow> MemStorage \<Rightarrow> UserPreferences \<times> MemStorage" where
  "createUserPreferences prefs s =
     (let i = userPreferencesId s;
          userPrefs = \<lparr>prefs_id = i, prefs_userId = ip_userId prefs,
                       preferredCategories = ip_preferredCategories prefs,
                       preferredAgeRanges = ip_preferredAgeRanges prefs,
                       notificationsEnabled = ip_notificationsEnabled prefs\<rparr>
      in (userPrefs,
          s\<lparr>userPreferencesId := i + 1,
            userPreferences := map_set (userPreferences s) i userPrefs\<rparr>))"

definition createUser :: "InsertUser \<Rightarrow> MemStorage \<Rightarrow> User \<times> MemStorage" where
  "createUser insertUser s =
     (let i = userId s;
          user = \<lparr>user_id = i, username = iu_username insertUser,
                  password = iu_password insertUser\<rparr>;
          s1 = s\<lparr>userId := i + 1, users := map_set (users s) i user\<rparr>;
          s2 = snd (createUserPreferences
                 \<lparr>ip_userId = i, ip_preferredCategories = Some [],
                  ip_preferredAgeRanges = Some [], ip_notificationsEnabled = Some True\<rparr> s1)
      in (user, s2))"

definition merge_prefs ::
  "UserPreferences \<Rightarrow> PartialInsertUserPreferences \<Rightarrow> UserPreferences" where
  "merge_prefs prefs u =
     prefs\<lparr>prefs_userId := (case pp_userId u of None \<Rightarrow> prefs_userId prefs | Some v \<Rightarrow> v),
           preferredCategories :=
             (case pp_preferredCategories u of None \<Rightarrow> preferredCategories prefs | Some v \<Rightarrow> v),
           preferredAgeRanges :=
             (case pp_preferredAgeRanges u of None \<Rightarrow> preferredAgeRanges prefs | Some v \<Rightarrow> v),
           notificationsEnabled :=
             (case pp_notificationsEnabled u of None \<Rightarrow> notificationsEnabled prefs
              | Some v \<Rightarrow> v)\<rparr>"

definition updateUserPreferences ::
  "int \<Rightarrow> PartialInsertUserPreferences \<Rightarrow> MemStorage \<Rightarrow> UserPreferences option \<times> MemStorage"
  where
  "updateUserPreferences uid prefsUpdate s =
     (case find (\<lambda>p. prefs_userId p = uid) (map_values (userPreferences s)) of
        None \<Rightarrow> (None, s)
      | Some prefs \<Rightarrow>
          (let updatedPrefs = merge_prefs prefs prefsUpdate
           in (Some updatedPrefs,
               s\<lparr>userPreferences :=
                   map_set (userPreferences s) (prefs_id prefs) updatedPrefs\<rparr>)))"

subsection \<open>Books\<close>

definition getBook :: "int \<Rightarrow> MemStorage \<Rightarrow> Book option" where
  "getBook i s = map_get (books s) i"

definition createBook :: "InsertBook \<Rightarrow> MemStorage \<Rightarrow> Book \<times> MemStorage" where
  "createBook insertBook s =
     (let i = bookId s;
          book = \<lparr>book_id = i, googleId = ib_googleId insertBook, title = ib_title insertBook,
                  author = ib_author insertBook, description = ib_description insertBook,
                  thumbnail = ib_thumbnail insertBook,
                  book_categories = ib_categories insertBook,
                  ageRange = ib_ageRange insertBook,
                  publishedDate = ib_publishedDate insertBook,
                  rating = ib_rating insertBook, isNew = ib_isNew insertBook\<rparr>
      in (book, s\<lparr>bookId := i + 1, books := map_set (books s) i book\<rparr>))"

definition merge_book :: "Book \<Rightarrow> PartialInsertBook \<Rightarrow> Book" where
  "merge_book book u =
     book\<lparr>googleId := (case pb_googleId u of None \<Rightarrow> googleId book | Some v \<Rightarrow> v),
          title := (case pb_title u of None \<Rightarrow> title book | Some v \<Rightarrow> v),
          author := (case pb_author u of None \<Rightarrow> author book | Some v \<Rightarrow> v),
          description := (case pb_description u of None \<Rightarrow> description book | Some v \<Rightarrow> v),
          thumbnail := (case pb_thumbnail u of None \<Rightarrow> thumbnail book | Some v \<Rightarrow> v),
          book_categories :=
            (case pb_categories u of None \<Rightarrow> book_categories book | Some v \<Rightarrow> v),
          ageRange := (case pb_ageRange u of None \<Rightarrow> ageRange book | Some v \<Rightarrow> v),
          publishedDate :=
            (case pb_publishedDate u of None \<Rightarrow> publishedDate book | Some v \<Rightarrow> v),
          rating := (case pb_rating u of None \<Rightarrow> rating book | Some v \<Rightarrow> v),
          isNew := (case pb_isNew u of None \<Rightarrow> isNew book | Some v \<Rightarrow> v)\<rparr>"

definition updateBook ::
  "int \<Rightarrow> PartialInsertBook \<Rightarrow> MemStorage \<Rightarrow> Book option \<times> MemStorage" where
  "updateBook i bookUpdate s =
     (case map_get (books s) i of
        None \<Rightarrow> (None, s)
      | Some book \<Rightarrow>
          (let updatedBook = merge_book book bookUpdate
           in (Some updatedBook, s\<lparr>books := map_set (books s) i updatedBook\<rparr>)))"

text \<open>
  The options of \<^verbatim>\<open>getBooks\<close>; \<open>None\<close> is an option that is not passed.
  The guards \<^verbatim>\<open>if (options.category)\<close>, \<^verbatim>\<open>if (options.limit)\<close> test
  truthiness: the empty string and the number 0 count as not passed.
\<close>

record GetBooksOptions =
  opt_category :: "string option"
  opt_ageRange :: "string option"
  opt_isNew :: "bool option"
  opt_limit :: "int option"
  opt_offset :: "int option"

definition truthy_string :: "string option \<Rightarrow> bool" where
  "truthy_string v = (case v of None \<Rightarrow> False | Some x \<Rightarrow> x \<noteq> [])"

definition truthy_number :: "int option \<Rightarrow> bool" where
  "truthy_number v = (case v of None \<Rightarrow> False | Some n \<Rightarrow> n \<noteq> 0)"

text \<open>
  \<^verbatim>\<open>Array.prototype.slice(start, end)\<close> on integers: a negative index counts from
  the end, both are clamped to the array.
\<close>

definition js_slice :: "'a list \<Rightarrow> int \<Rightarrow> int \<Rightarrow> 'a list" where
  "js_slice xs start fin =
     (let len = int (length xs);
          k = (if start < 0 then max (len + start) 0 else min start len);
          final = (if fin < 0 then max (len + fin) 0 else min fin len)
      in take (nat (final - k)) (drop (nat k) xs))"

definition hasCategory :: "string \<Rightarrow> Book \<Rightarrow> bool" where
  "hasCategory c book = (case book_categories book of None \<Rightarrow> False | Some cs \<Rightarrow> c \<in> set cs)"

definition filterBooks :: "GetBooksOptions \<Rightarrow> Book list \<Rightarrow> Book list" where
  "filterBooks options bs =
     (let b1 = (if truthy_string (opt_category options)
                then filter (hasCategory (the (opt_category options))) bs else bs);
          b2 = (if truthy_string (opt_ageRange options)
                then filter (\<lambda>book. ageRange book = opt_ageRange options) b1 else b1);
          b3 = (case opt_isNew options of None \<Rightarrow> b2
                | Some v \<Rightarrow> filter (\<lambda>book. isNew book = Some v) b2)
      in b3)"

text \<open>
  \<^verbatim>\<open>books.sort((a, b) => b.id - a.id)\<close> is a stable sort by descending id, as
  \<open>sort_key\<close> on the negated id is.
\<close>

definition sortBooks :: "Book list \<Rightarrow> Book list" where
  "sortBooks bs = sort_key (\<lambda>book. - book_id book) bs"

definition getBooks :: "GetBooksOptions \<Rightarrow> MemStorage \<Rightarrow> Book list" where
  "getBooks options s =
     (let sorted = sortBooks (filterBooks options (map_values (books s)))
      in if truthy_number (opt_offset options) \<and> truthy_number (opt_limit options)
         then js_slice sorted (the (opt_offset options))
                (the (opt_offset options) + the (opt_limit options))
         else if truthy_number (opt_limit options)
         then js_slice sorted 0 (the (opt_limit options))
         else sorted)"

subsection \<open>Favorites\<close>

definition addFavorite :: "InsertFavorite \<Rightarrow> int \<Rightarrow> MemStorage \<Rightarrow> Favorite \<times> MemStorage" where
  "addFavorite favorite now s =
     (let i = favoriteId s;
          newFavorite = \<lparr>fav_id = i, fav_userId = if_userId favorite,
                         fav_bookId = if_bookId favorite, fav_createdAt = now\<rparr>
      in (newFavorite,
          s\<lparr>favoriteId := i + 1, favorites := map_set (favorites s) i newFavorite\<rparr>))"

definition isFavoriteRow :: "int \<Rightarrow> int \<Rightarrow> Favorite \<Rightarrow> bool" where
  "isFavoriteRow uid bid fav = (fav_userId fav = uid \<and> fav_bookId fav = bid)"

definition removeFavorite :: "int \<Rightarrow> int \<Rightarrow> MemStorage \<Rightarrow> bool \<times> MemStorage" where
  "removeFavorite uid bid s =
     (case find (isFavoriteRow uid bid) (map_values (favorites s)) of
        None \<Rightarrow> (False, s)
      | Some favoriteToRemove \<Rightarrow>
          (True, s\<lparr>favorites := map_delete (favorites s) (fav_id favoriteToRemove)\<rparr>))"

definition isFavorite :: "int \<Rightarrow> int \<Rightarrow> MemStorage \<Rightarrow> bool" where
  "isFavorite uid bid s = list_ex (isFavoriteRow uid bid) (map_values (favorites s))"

subsection \<open>Notifications\<close>

definition createNotification ::
  "InsertNotification \<Rightarrow> int \<Rightarrow> MemStorage \<Rightarrow> Notification \<times> MemStorage" where
  "createNotification notification now s =
     (let i = notificationId s;
          newNotification =
            \<lparr>n_id = i, n_userId = in_userId notification, n_title = in_title notification,
             n_message = in_message notification, n_type = in_type notification,
             n_isRead = False, n_createdAt = now, n_bookId = in_bookId notification\<rparr>
      in (newNotification,
          s\<lparr>notificationId := i + 1,
            notifications := map_set (notifications s) i newNotification\<rparr>))"

definition markNotificationAsRead ::
  "int \<Rightarrow> MemStorage \<Rightarrow> Notification option \<times> MemStorage" where
  "markNotificationAsRead i s =
     (case map_get (notifications s) i of
        None \<Rightarrow> (None, s)
      | Some notification \<Rightarrow>
          (let updatedNotification = notification\<lparr>n_isRead := True\<rparr>
           in (Some updatedNotification,
               s\<lparr>notifications := map_set (notifications s) i updatedNotification\<rparr>)))"

definition markAllNotificationsAsRead :: "int \<Rightarrow> MemStorage \<Rightarrow> bool \<times> MemStorage" where
  "markAllNotificationsAsRead uid s =
     (let userNotifications =
            filter (\<lambda>notification. n_userId notification = uid)
              (map_values (notifications s))
      in (True,
          s\<lparr>notifications :=
              fold (\<lambda>notification m.
                      map_set m (n_id notification) (notification\<lparr>n_isRead := True\<rparr>))
                userNotifications (notifications s)\<rparr>))"

definition getUnreadNotificationCount :: "int \<Rightarrow> MemStorage \<Rightarrow> nat" where
  "getUnreadNotificationCount uid s =
     length (filter (\<lambda>notification. n_userId notification = uid \<and> \<not> n_isRead notification)
               (map_values (notifications s)))"

subsection \<open>Recently viewed\<close>

definition isViewRow :: "int \<Rightarrow> int \<Rightarrow> RecentlyViewed \<Rightarrow> bool" where
  "isViewRow uid bid entry = (rv_userId entry = uid \<and> rv_bookId entry = bid)"

definition addRecentlyViewed ::
  "InsertRecentlyViewed \<Rightarrow> int \<Rightarrow> MemStorage \<Rightarrow> RecentlyViewed \<times> MemStorage" where
  "addRecentlyViewed rv now s =
     (case find (isViewRow (irv_userId rv) (irv_bookId rv)) (map_values (recentlyViewed s)) of
        Some existingEntry \<Rightarrow>
          (let updatedEntry = existingEntry\<lparr>rv_viewedAt := now\<rparr>
           in (updatedEntry,
               s\<lparr>recentlyViewed :=
                   map_set (recentlyViewed s) (rv_id existingEntry) updatedEntry\<rparr>))
      | None \<Rightarrow>
          (let i = recentlyViewedId s;
               newEntry = \<lparr>rv_id = i, rv_userId = irv_userId rv, rv_bookId = irv_bookId rv,
                           rv_viewedAt = now\<rparr>
           in (newEntry,
               s\<lparr>recentlyViewedId := i + 1,
                 recentlyViewed := map_set (recentlyViewed s) i newEntry\<rparr>)))"

definition clearRecentlyViewed :: "int \<Rightarrow> MemStorage \<Rightarrow> bool \<times> MemStorage" where
  "clearRecentlyViewed uid s =
     (let entriesToRemove = filter (\<lambda>entry. rv_userId entry = uid)
                              (map_values (recentlyViewed s))
      in (True,
          s\<lparr>recentlyViewed :=
              fold (\<lambda>entry m. map_delete m (rv_id entry)) entriesToRemove
                (recentlyViewed s)\<rparr>))"

subsection \<open>Authors and series\<close>

definition createAuthor :: "InsertAuthor \<Rightarrow> MemStorage \<Rightarrow> Author \<times> MemStorage" where
  "createAuthor authorData s =
     (let i = authorId s;
          a = \<lparr>author_id = i, author_name = ia_name authorData, bio = ia_bio authorData,
               photo = ia_photo authorData\<rparr>
      in (a, s\<lparr>authorId := i + 1, authors := map_set (authors s) i a\<rparr>))"

definition createBookSeries :: "InsertBookSeries \<Rightarrow> MemStorage \<Rightarrow> BookSeries \<times> MemStorage" where
  "createBookSeries seriesData s =
     (let i = bookSeriesId s;
          series = \<lparr>series_id = i, series_name = is_name seriesData,
                    series_description = is_description seriesData\<rparr>
      in (series, s\<lparr>bookSeriesId := i + 1, bookSeries := map_set (bookSeries s) i series\<rparr>))"

subsection \<open>Following authors, series and categories\<close>

definition isAuthorRow :: "int \<Rightarrow> int \<Rightarrow> FollowingAuthor \<Rightarrow> bool" where
  "isAuthorRow uid aid entry = (fa_userId entry = uid \<and> fa_authorId entry = aid)"

definition followAuthor ::
  "InsertFollowingAuthor \<Rightarrow> int \<Rightarrow> MemStorage \<Rightarrow> FollowingAuthor \<times> MemStorage" where
  "followAuthor follow now s =
     (case find (isAuthorRow (ifa_userId follow) (ifa_authorId follow))
             (map_values (followingAuthors s)) of
        Some existingEntry \<Rightarrow> (existingEntry, s)
      | None \<Rightarrow>
          (let i = followingAuthorId s;
               newEntry = \<lparr>fa_id = i, fa_userId = ifa_userId follow,
                           fa_authorId = ifa_authorId follow, fa_followedAt = now\<rparr>
           in (newEntry,
               s\<lparr>followingAuthorId := i + 1,
                 followingAuthors := map_set (followingAuthors s) i newEntry\<rparr>)))"

definition unfollowAuthor :: "int \<Rightarrow> int \<Rightarrow> MemStorage \<Rightarrow> bool \<times> MemStorage" where
  "unfollowAuthor uid aid s =
     (case find (isAuthorRow uid aid) (map_values (followingAuthors s)) of
        None \<Rightarrow> (False, s)
      | Some entryToRemove \<Rightarrow>
          (True, s\<lparr>followingAuthors :=
                     map_delete (followingAuthors s) (fa_id entryToRemove)\<rparr>))"

definition isFollowingAuthor :: "int \<Rightarrow> int \<Rightarrow> MemStorage \<Rightarrow> bool" where
  "isFollowingAuthor uid aid s =
     list_ex (isAuthorRow uid aid) (map_values (followingAuthors s))"

definition isSeriesRow :: "int \<Rightarrow> int \<Rightarrow> FollowingSeries \<Rightarrow> bool" where
  "isSeriesRow uid sid entry = (fs_userId entry = uid \<and> fs_seriesId entry = sid)"

definition followSeries ::
  "InsertFollowingSeries \<Rightarrow> int \<Rightarrow> MemStorage \<Rightarrow> FollowingSeries \<times> MemStorage" where
  "followSeries follow now s =
     (case find (isSeriesRow (ifs_userId follow) (ifs_seriesId follow))
             (map_values (followingSeries s)) of
        Some existingEntry \<Rightarrow> (existingEntry, s)
      | None \<Rightarrow>
          (let i = followingSeriesId s;
               newEntry = \<lparr>fs_id = i, fs_userId = ifs_userId follow,
                           fs_seriesId = ifs_seriesId follow, fs_followedAt = now\<rparr>
           in (newEntry,
               s\<lparr>followingSeriesId := i + 1,
                 followingSeries := map_set (followingSeries s) i newEntry\<rparr>)))"

definition unfollowSeries :: "int \<Rightarrow> int \<Rightarrow> MemStorage \<Rightarrow> bool \<times> MemStorage" where
  "unfollowSeries uid sid s =
     (case find (isSeriesRow uid sid) (map_values (followingSeries s)) of
        None \<Rightarrow> (False, s)
      | Some entryToRemove \<Rightarrow>
          (True, s\<lparr>followingSeries :=
                     map_delete (followingSeries s) (fs_id entryToRemove)\<rparr>))"

definition isFollowingSeries :: "int \<Rightarrow> int \<Rightarrow> MemStorage \<Rightarrow> bool" where
  "isFollowingSeries uid sid s =
     list_ex (isSeriesRow uid sid) (map_values (followingSeries s))"

definition isCategoryRow :: "int \<Rightarrow> string \<Rightarrow> FollowingCategory \<Rightarrow> bool" where
  "isCategoryRow uid c entry = (fc_userId entry = uid \<and> fc_category entry = c)"

definition followCategory ::
  "InsertFollowingCategory \<Rightarrow> int \<Rightarrow> MemStorage \<Rightarrow> FollowingCategory \<times> MemStorage" where
  "followCategory follow now s =
     (case find (isCategoryRow (ifc_userId follow) (ifc_category follow))
             (map_values (followingCategories s)) of
        Some existingEntry \<Rightarrow> (existingEntry, s)
      | None \<Rightarrow>
          (let i = followingCategoryId s;
               newEntry = \<lparr>fc_id = i, fc_userId = ifc_userId follow,
                           fc_category = ifc_category follow, fc_followedAt = now\<rparr>
           in (newEntry,
               s\<lparr>followingCategoryId := i + 1,
                 followingCategories := map_set (followingCategories s) i newEntry\<rparr>)))"

definition unfollowCategory :: "int \<Rightarrow> string \<Rightarrow> MemStorage \<Rightarrow> bool \<times> MemStorage" where
  "unfollowCategory uid c s =
     (case find (isCategoryRow uid c) (map_values (followingCategories s)) of
        None \<Rightarrow> (False, s)
      | Some entryToRemove \<Rightarrow>
          (True, s\<lparr>followingCategories :=
                     map_delete (followingCategories s) (fc_id entryToRemove)\<rparr>))"

definition isFollowingCategory :: "int \<Rightarrow> string \<Rightarrow> MemStorage \<Rightarrow> bool" where
  "isFollowingCategory uid c s =
     list_ex (isCategoryRow uid c) (map_values (followingCategories s))"

subsection \<open>The constructor\<close>

definition emptyStorage :: MemStorage where
  "emptyStorage =
     \<lparr>users = [], books = [], userPreferences = [], favorites = [], notifications = [],
      recentlyViewed = [], authors = [], bookSeries = [], followingAuthors = [],
      followingSeries = [], followingCategories = [],
      userId = 1, bookId = 1, userPreferencesId = 1, favoriteId = 1, notificationId = 1,
      recentlyViewedId = 1, authorId = 1, bookSeriesId = 1, followingAuthorId = 1,
      followingSeriesId = 1, followingCategoryId = 1\<rparr>"

definition seedAuthors :: "InsertAuthor list" where
  "seedAuthors =
     [\<lparr>ia_name = ''Dr. Seuss'',
       ia_bio = Some ''Theodor Seuss Geisel was an American children's author and cartoonist.'',
       ia_photo = None\<rparr>,
      \<lparr>ia_name = ''J.K. Rowling'',
       ia_bio = Some ''British author best known for the Harry Potter series.'',
       ia_photo = None\<rparr>,
      \<lparr>ia_name = ''Roald Dahl'',
       ia_bio = Some ''British novelist, short-story writer, poet, and screenwriter.'',
       ia_photo = None\<rparr>,
      \<lparr>ia_name = ''Beverly Cleary'',
       ia_bio = Some ''American writer of children's and young adult fiction.'',
       ia_photo = None\<rparr>,
      \<lparr>ia_name = ''Rick Riordan'',
       ia_bio = Some
         ''American author known for writing the Percy Jackson & the Olympians series.'',
       ia_photo = None\<rparr>]"

definition seedSeries :: "InsertBookSeries list" where
  "seedSeries =
     [\<lparr>is_name = ''Harry Potter'',
       is_description = Some
         ''A series of fantasy novels written by British author J. K. Rowling.''\<rparr>,
      \<lparr>is_name = ''Percy Jackson & the Olympians'',
       is_description = Some
         ''A pentalogy of fantasy adventure novels by American author Rick Riordan.''\<rparr>,
      \<lparr>is_name = ''Chronicles of Narnia'',
       is_description = Some ''A series of fantasy novels by British author C. S. Lewis.''\<rparr>,
      \<lparr>is_name = ''Diary of a Wimpy Kid'',
       is_description = Some
         ''A series of fiction books written by American author and cartoonist Jeff Kinney.''\<rparr>,
      \<lparr>is_name = ''The Magic Tree House'',
       is_description = Some
         ''An American series of children's books written by Mary Pope Osborne.''\<rparr>]"

definition newMemStorage :: MemStorage where
  "newMemStorage =
     (let s1 = snd (createUser \<lparr>iu_username = ''demo'', iu_password = ''password''\<rparr>
                     emptyStorage);
          s2 = fold (\<lambda>a s. snd (createAuthor a s)) seedAuthors s1;
          s3 = fold (\<lambda>b s. snd (createBookSeries b s)) seedSeries s2
      in s3)"

subsection \<open>The notification matcher (NotificationService.checkForNewBooks)\<close>

text \<open>
  The values the filter callback computes are JavaScript values, and \<^verbatim>\<open>||\<close> and
  \<^verbatim>\<open>&&\<close> return one of their operands: \<^verbatim>\<open>book.ageRange && ...\<close> is the
  age range itself when that is \<^verbatim>\<open>null\<close>, absent or the empty string.
\<close>

datatype jsval = JBool bool | JStr string | JNull

fun truthy :: "jsval \<Rightarrow> bool" where
  "truthy (JBool b) = b"
| "truthy (JStr x) = (x \<noteq> [])"
| "truthy JNull = False"

definition js_or :: "jsval \<Rightarrow> jsval \<Rightarrow> jsval" where
  "js_or a b = (if truthy a then a else b)"

definition js_and :: "jsval \<Rightarrow> jsval \<Rightarrow> jsval" where
  "js_and a b = (if truthy a then b else a)"

text \<open>
  The service calls \<^verbatim>\<open>getNewReleases\<close>, \<^verbatim>\<open>getUserPreference\<close> and
  \<^verbatim>\<open>getNotificationsByUserId\<close> on its storage; \<^verbatim>\<open>IStorage\<close> and
  \<^verbatim>\<open>MemStorage\<close> as they stand declare none of the three. The first two are
  parameters of the model below. Their results are the objects the service reads: of a
  preference object the properties \<^verbatim>\<open>ageRanges\<close> and \<^verbatim>\<open>categories\<close>
  (the row of shared/schema.ts names its columns \<^verbatim>\<open>preferredAgeRanges\<close> and
  \<^verbatim>\<open>preferredCategories\<close>), of a book \<^verbatim>\<open>id\<close>, \<^verbatim>\<open>title\<close>,
  \<^verbatim>\<open>authors\<close>, \<^verbatim>\<open>ageRange\<close> and \<^verbatim>\<open>categories\<close>.
\<close>

record Preference =
  ageRanges :: "string list option"
  categories :: "string list option"

record NewRelease =
  nr_id :: int
  nr_title :: string
  nr_authors :: "string list option"
  nr_ageRange :: "string option"
  nr_categories :: "string list option"

definition ageRangeMatch :: "Preference \<Rightarrow> NewRelease \<Rightarrow> jsval" where
  "ageRangeMatch preferences book =
     js_or (js_or (JBool (ageRanges preferences = None))
                  (JBool (case ageRanges preferences of None \<Rightarrow> False
                          | Some rs \<Rightarrow> length rs = 0)))
           (js_and (case nr_ageRange book of None \<Rightarrow> JNull | Some a \<Rightarrow> JStr a)
                   (JBool (case (ageRanges preferences, nr_ageRange book) of
                             (Some rs, Some a) \<Rightarrow> a \<in> set rs | _ \<Rightarrow> False)))"

definition categoryMatch :: "Preference \<Rightarrow> NewRelease \<Rightarrow> jsval" where
  "categoryMatch preferences book =
     js_or (js_or (JBool (categories preferences = None))
                  (JBool (case categories preferences of None \<Rightarrow> False
                          | Some cs \<Rightarrow> length cs = 0)))
           (case nr_categories book of None \<Rightarrow> JNull
            | Some bcs \<Rightarrow>
                JBool (case categories preferences of None \<Rightarrow> False
                       | Some cs \<Rightarrow> list_ex (\<lambda>cat. cat \<in> set cs) bcs))"

definition bookMatches :: "Preference \<Rightarrow> NewRelease \<Rightarrow> bool" where
  "bookMatches preferences book =
     truthy (js_or (ageRangeMatch preferences book) (categoryMatch preferences book))"

definition matchingBooks :: "Preference \<Rightarrow> NewRelease list \<Rightarrow> NewRelease list" where
  "matchingBooks preferences newBooks = filter (bookMatches preferences) newBooks"

text \<open>\<^verbatim>\<open>String.prototype.includes\<close> and \<^verbatim>\<open>Array.prototype.join\<close>.\<close>

fun str_includes :: "string \<Rightarrow> string \<Rightarrow> bool" where
  "str_includes [] needle = (needle = [])"
| "str_includes (c # cs) needle = (prefix needle (c # cs) \<or> str_includes cs needle)"

fun join :: "string \<Rightarrow> string list \<Rightarrow> string" where
  "join sep [] = []"
| "join sep [x] = x"
| "join sep (x # y # ys) = x @ sep @ join sep (y # ys)"

text \<open>
  Modelled from the spec: \<^verbatim>\<open>getNotificationsByUserId\<close> is not a method of the
  storage in the source; the spec's step 4 has the matcher "check existing notifications
  for that user".
\<close>

definition getNotificationsByUserId :: "int \<Rightarrow> MemStorage \<Rightarrow> Notification list" where
  "getNotificationsByUserId uid s =
     filter (\<lambda>n. n_userId n = uid) (map_values (notifications s))"

text \<open>
  \<^verbatim>\<open>getAllUsers\<close> knows the user of id 1 only. The notification the matcher
  builds carries \<^verbatim>\<open>isRead: false\<close>, which \<^verbatim>\<open>createNotification\<close>
  overwrites, and no \<^verbatim>\<open>type\<close>. A run reads the clock at each notification it
  creates; the model stamps the notifications of one run with the one time \<open>now\<close>,
  and no statement below reads \<^verbatim>\<open>createdAt\<close>.
\<close>

definition getAllUsers :: "MemStorage \<Rightarrow> User list" where
  "getAllUsers s = (case getUser 1 s of None \<Rightarrow> [] | Some user \<Rightarrow> [user])"

definition refersTo :: "NewRelease \<Rightarrow> Notification \<Rightarrow> bool" where
  "refersTo book n =
     (n_bookId n = Some (nr_id book) \<and> str_includes (n_title n) ''New Book Release'')"

definition alreadyNotified :: "User \<Rightarrow> NewRelease \<Rightarrow> MemStorage \<Rightarrow> bool" where
  "alreadyNotified user book s =
     list_ex (refersTo book) (getNotificationsByUserId (user_id user) s)"

definition releaseMessage :: "NewRelease \<Rightarrow> string" where
  "releaseMessage book =
     [CHR 0x22] @ nr_title book @ [CHR 0x22] @ '' by '' @
     (let joined = (case nr_authors book of None \<Rightarrow> [] | Some as \<Rightarrow> join '', '' as)
      in if joined = [] then ''Unknown Author'' else joined) @
     '' is now available!''"

definition notifyBook :: "User \<Rightarrow> int \<Rightarrow> NewRelease \<Rightarrow> MemStorage \<Rightarrow> MemStorage" where
  "notifyBook user now book s =
     (if alreadyNotified user book s then s
      else snd (createNotification
                  \<lparr>in_userId = user_id user, in_title = ''New Book Release'',
                   in_message = releaseMessage book, in_type = None,
                   in_bookId = Some (nr_id book)\<rparr> now s))"

definition notifyUser ::
  "(int \<Rightarrow> MemStorage \<Rightarrow> Preference option) \<Rightarrow> NewRelease list \<Rightarrow> int \<Rightarrow> User \<Rightarrow>
   MemStorage \<Rightarrow> MemStorage" where
  "notifyUser getUserPreference newBooks now user s =
     (case getUserPreference (user_id user) s of
        None \<Rightarrow> s
      | Some preferences \<Rightarrow>
          fold (notifyBook user now) (matchingBooks preferences newBooks) s)"

definition checkForNewBooks ::
  "(MemStorage \<Rightarrow> NewRelease list) \<Rightarrow> (int \<Rightarrow> MemStorage \<Rightarrow> Preference option) \<Rightarrow> int \<Rightarrow>
   MemStorage \<Rightarrow> MemStorage" where
  "checkForNewBooks getNewReleases getUserPreference now s =
     (let newBooks = getNewReleases s
      in if length newBooks = 0 then s
         else fold (notifyUser getUserPreference newBooks now) (getAllUsers s) s)"

text \<open>
  Modelled from the spec: the two storage methods the source lacks, as the spec words
  them: "Fetch all books flagged isNew = true" and "fetch preferences; skip users with
  no preferences row", the preference lists being the row's
  \<^verbatim>\<open>preferredAgeRanges\<close> and \<^verbatim>\<open>preferredCategories\<close>. A row of the
  \<^verbatim>\<open>books\<close> table has an \<^verbatim>\<open>author\<close> and no \<^verbatim>\<open>authors\<close>.
\<close>

definition toNewRelease :: "Book \<Rightarrow> NewRelease" where
  "toNewRelease book =
     \<lparr>nr_id = book_id book, nr_title = title book, nr_authors = None,
      nr_ageRange = ageRange book, nr_categories = book_categories book\<rparr>"

definition getNewReleases :: "MemStorage \<Rightarrow> NewRelease list" where
  "getNewReleases s =
     map toNewRelease
       (getBooks \<lparr>opt_category = None, opt_ageRange = None, opt_isNew = Some True,
                  opt_limit = None, opt_offset = None\<rparr> s)"

definition getUserPreference :: "int \<Rightarrow> MemStorage \<Rightarrow> Preference option" where
  "getUserPreference uid s =
     map_option (\<lambda>row. \<lparr>ageRanges = preferredAgeRanges row,
                        categories = preferredCategories row\<rparr>)
       (getUserPreferences uid s)"

subsection \<open>Store operations as data, and the states the program reaches\<close>

datatype op =
    CreateUser InsertUser
  | CreateUserPreferences InsertUserPreferences
  | UpdateUserPreferences int PartialInsertUserPreferences
  | CreateBook InsertBook
  | UpdateBook int PartialInsertBook
  | AddFavorite InsertFavorite int
  | RemoveFavorite int int
  | CreateNotification InsertNotification int
  | MarkNotificationAsRead int
  | MarkAllNotificationsAsRead int
  | AddRecentlyViewed InsertRecentlyViewed int
  | ClearRecentlyViewed int
  | CreateAuthor InsertAuthor
  | CreateBookSeries InsertBookSeries
  | FollowAuthor InsertFollowingAuthor int
  | UnfollowAuthor int int
  | FollowSeries InsertFollowingSeries int
  | UnfollowSeries int int
  | FollowCategory InsertFollowingCategory int
  | UnfollowCategory int string
  | CheckForNewBooks "MemStorage \<Rightarrow> NewRelease list"
      "int \<Rightarrow> MemStorage \<Rightarrow> Preference option" int

fun exec :: "op \<Rightarrow> MemStorage \<Rightarrow> MemStorage" where
  "exec (CreateUser u) s = snd (createUser u s)"
| "exec (CreateUserPreferences p) s = snd (createUserPreferences p s)"
| "exec (UpdateUserPreferences uid p) s = snd (updateUserPreferences uid p s)"
| "exec (CreateBook b) s = snd (createBook b s)"
| "exec (UpdateBook i b) s = snd (updateBook i b s)"
| "exec (AddFavorite f now) s = snd (addFavorite f now s)"
| "exec (RemoveFavorite uid bid) s = snd (removeFavorite uid bid s)"
| "exec (CreateNotification n now) s = snd (createNotification n now s)"
| "exec (MarkNotificationAsRead i) s = snd (markNotificationAsRead i s)"
| "exec (MarkAllNotificationsAsRead uid) s = snd (markAllNotificationsAsRead uid s)"
| "exec (AddRecentlyViewed r now) s = snd (addRecentlyViewed r now s)"
| "exec (ClearRecentlyViewed uid) s = snd (clearRecentlyViewed uid s)"
| "exec (CreateAuthor a) s = snd (createAuthor a s)"
| "exec (CreateBookSeries b) s = snd (createBookSeries b s)"
| "exec (FollowAuthor f now) s = snd (followAuthor f now s)"
| "exec (UnfollowAuthor uid aid) s = snd (unfollowAuthor uid aid s)"
| "exec (FollowSeries f now) s = snd (followSeries f now s)"
| "exec (UnfollowSeries uid sid) s = snd (unfollowSeries uid sid s)"
| "exec (FollowCategory f now) s = snd (followCategory f now s)"
| "exec (UnfollowCategory uid c) s = snd (unfollowCategory uid c s)"
| "exec (CheckForNewBooks releases preference now) s =
     checkForNewBooks releases preference now s"

definition run :: "op list \<Rightarrow> MemStorage \<Rightarrow> MemStorage" where
  "run ops s = fold exec ops s"

text \<open>
  What every store built by the constructor and the operations satisfies: in each
  collection the keys are distinct, each is below the collection's counter, and each row
  carries its key as its id.
\<close>

definition wf_tbl :: "int \<Rightarrow> ('a \<Rightarrow> int) \<Rightarrow> 'a jsmap \<Rightarrow> bool" where
  "wf_tbl c idf m =
     (distinct (map_keys m) \<and> list_all (\<lambda>e. fst e < c \<and> idf (snd e) = fst e) m)"

definition wf_store :: "MemStorage \<Rightarrow> bool" where
  "wf_store s =
     (wf_tbl (userId s) user_id (users s) \<and>
      wf_tbl (bookId s) book_id (books s) \<and>
      wf_tbl (userPreferencesId s) prefs_id (userPreferences s) \<and>
      wf_tbl (favoriteId s) fav_id (favorites s) \<and>
      wf_tbl (notificationId s) n_id (notifications s) \<and>
      wf_tbl (recentlyViewedId s) rv_id (recentlyViewed s) \<and>
      wf_tbl (authorId s) author_id (authors s) \<and>
      wf_tbl (bookSeriesId s) series_id (bookSeries s) \<and>
      wf_tbl (followingAuthorId s) fa_id (followingAuthors s) \<and>
      wf_tbl (followingSeriesId s) fs_id (followingSeries s) \<and>
      wf_tbl (followingCategoryId s) fc_id (followingCategories s))"

subsection \<open>Notions the properties are stated with\<close>

text \<open>The rows of a relation for one (user, target) pair, and "at most one row per pair".\<close>

definition favoriteRows :: "int \<Rightarrow> int \<Rightarrow> MemStorage \<Rightarrow> Favorite list" where
  "favoriteRows uid bid s = filter (isFavoriteRow uid bid) (map_values (favorites s))"

definition favoritesUnique :: "MemStorage \<Rightarrow> bool" where
  "favoritesUnique s =
     distinct (map (\<lambda>fav. (fav_userId fav, fav_bookId fav)) (map_values (favorites s)))"

definition viewRows :: "int \<Rightarrow> int \<Rightarrow> MemStorage \<Rightarrow> RecentlyViewed list" where
  "viewRows uid bid s = filter (isViewRow uid bid) (map_values (recentlyViewed s))"

definition viewsUnique :: "MemStorage \<Rightarrow> bool" where
  "viewsUnique s =
     distinct (map (\<lambda>entry. (rv_userId entry, rv_bookId entry))
                 (map_values (recentlyViewed s)))"

definition followedAuthorsUnique :: "MemStorage \<Rightarrow> bool" where
  "followedAuthorsUnique s =
     distinct (map (\<lambda>entry. (fa_userId entry, fa_authorId entry))
                 (map_values (followingAuthors s)))"

definition followedSeriesUnique :: "MemStorage \<Rightarrow> bool" where
  "followedSeriesUnique s =
     distinct (map (\<lambda>entry. (fs_userId entry, fs_seriesId entry))
                 (map_values (followingSeries s)))"

definition followedCategoriesUnique :: "MemStorage \<Rightarrow> bool" where
  "followedCategoriesUnique s =
     distinct (map (\<lambda>entry. (fc_userId entry, fc_category entry))
                 (map_values (followingCategories s)))"

text \<open>
  What an unlink operation does to its relation \<open>tbl\<close>, the rows of the pair being
  those that satisfy \<open>P\<close>: with no such row it answers \<^verbatim>\<open>false\<close> and returns the
  store as it was; otherwise it answers \<^verbatim>\<open>true\<close>, the first such row is gone and
  every other row stays in place.
\<close>

definition unlinks ::
  "('row \<Rightarrow> bool) \<Rightarrow> (MemStorage \<Rightarrow> 'row jsmap) \<Rightarrow> MemStorage \<Rightarrow> bool \<times> MemStorage \<Rightarrow> bool"
  where
  "unlinks P tbl s r =
     (case filter P (map_values (tbl s)) of
        [] \<Rightarrow> r = (False, s)
      | row # rest \<Rightarrow>
          fst r = True \<and> map_values (tbl (snd r)) = remove1 row (map_values (tbl s)) \<and>
          filter P (map_values (tbl (snd r))) = rest)"

text \<open>
  What a follow operation does: with a row for the pair it returns the first such row and
  the store as it was; otherwise it returns the row \<open>new\<close> and the relation has that
  row appended under the counter's value.
\<close>

definition links ::
  "('row \<Rightarrow> bool) \<Rightarrow> (MemStorage \<Rightarrow> 'row jsmap) \<Rightarrow> (MemStorage \<Rightarrow> int) \<Rightarrow> 'row \<Rightarrow>
   MemStorage \<Rightarrow> 'row \<times> MemStorage \<Rightarrow> bool" where
  "links P tbl counter new s r =
     (case filter P (map_values (tbl s)) of
        [] \<Rightarrow> fst r = new \<and> tbl (snd r) = tbl s @ [(counter s, new)] \<and>
              counter (snd r) = counter s + 1
      | row # rest \<Rightarrow> r = (row, s))"

text \<open>The ids of the notifications that are read.\<close>

definition readIds :: "MemStorage \<Rightarrow> int list" where
  "readIds s = map fst (filter (\<lambda>e. n_isRead (snd e)) (notifications s))"

text \<open>
  The match of a preference object and a book in the words of the specification: a
  missing list is an empty set, and the book's age range or one of its categories is a
  member of the preferred ones.
\<close>

definition optList :: "'a list option \<Rightarrow> 'a list" where
  "optList v = (case v of None \<Rightarrow> [] | Some xs \<Rightarrow> xs)"

definition spec_matches :: "Preference \<Rightarrow> NewRelease \<Rightarrow> bool" where
  "spec_matches preferences book =
     ((optList (ageRanges preferences) = [] \<or>
       (case nr_ageRange book of None \<Rightarrow> False
        | Some a \<Rightarrow> a \<in> set (optList (ageRanges preferences)))) \<or>
      (optList (categories preferences) = [] \<or>
       list_ex (\<lambda>cat. cat \<in> set (optList (categories preferences)))
         (optList (nr_categories book))))"

text \<open>
  The pagination of \<^verbatim>\<open>getBooks\<close> in the words of the specification: with a limit
  and an offset the slice from the offset of the limit's length, with a limit alone the
  first \<open>limit\<close> elements, with neither the whole list.
\<close>

definition spec_paginate :: "int option \<Rightarrow> int option \<Rightarrow> 'a list \<Rightarrow> 'a list" where
  "spec_paginate limit offset xs =
     (case (limit, offset) of
        (Some l, Some off) \<Rightarrow> take (nat l) (drop (nat off) xs)
      | (Some l, None) \<Rightarrow> take (nat l) xs
      | (None, _) \<Rightarrow> xs)"

definition passesFilters :: "GetBooksOptions \<Rightarrow> Book \<Rightarrow> bool" where
  "passesFilters options book =
     ((case opt_category options of None \<Rightarrow> True
       | Some c \<Rightarrow> c = [] \<or> c \<in> set (optList (book_categories book))) \<and>
      (case opt_ageRange options of None \<Rightarrow> True
       | Some a \<Rightarrow> a = [] \<or> ageRange book = Some a) \<and>
      (case opt_isNew options of None \<Rightarrow> True | Some v \<Rightarrow> isNew book = Some v))"

text \<open>A matcher parameter that does not read the notifications.\<close>

definition ignoresNotifications :: "(MemStorage \<Rightarrow> 'a) \<Rightarrow> bool" where
  "ignoresNotifications f =
     (\<forall>s ns c. f (s\<lparr>notifications := ns, notificationId := c\<rparr>) = f s)"

subsection \<open>Example stores\<close>

definition demoFavorite :: InsertFavorite where
  "demoFavorite = \<lparr>if_userId = 1, if_bookId = 1\<rparr>"

definition oneFavorite :: MemStorage where
  "oneFavorite = snd (addFavorite demoFavorite 10 newMemStorage)"

definition twoFavorites :: MemStorage where
  "twoFavorites = snd (addFavorite demoFavorite 20 oneFavorite)"

definition demoNotification :: "int \<Rightarrow> InsertNotification" where
  "demoNotification uid =
     \<lparr>in_userId = uid, in_title = ''Hello'', in_message = ''A message'',
      in_type = Some ''info'', in_bookId = None\<rparr>"

definition twoNotifications :: MemStorage where
  "twoNotifications =
     snd (createNotification (demoNotification 2) 20
            (snd (createNotification (demoNotification 1) 10 newMemStorage)))"

definition earlyPreferences :: MemStorage where
  "earlyPreferences =
     snd (createUserPreferences
            \<lparr>ip_userId = 2, ip_preferredCategories = Some [''Fantasy''],
             ip_preferredAgeRanges = Some [], ip_notificationsEnabled = Some False\<rparr>
            newMemStorage)"

definition demoBook :: "string \<Rightarrow> bool \<Rightarrow> InsertBook" where
  "demoBook gid new =
     \<lparr>ib_googleId = gid, ib_title = ''Princess and the Dragon'', ib_author = ''Jane Smith'',
      ib_description = None, ib_thumbnail = None, ib_categories = Some [''Adventure''],
      ib_ageRange = Some ''6-8 years'', ib_publishedDate = None, ib_rating = None,
      ib_isNew = Some new\<rparr>"

definition threeBooks :: MemStorage where
  "threeBooks =
     snd (createBook (demoBook ''c'' True)
            (snd (createBook (demoBook ''b'' False)
                    (snd (createBook (demoBook ''a'' True) newMemStorage)))))"

definition newestTwo :: GetBooksOptions where
  "newestTwo =
     \<lparr>opt_category = None, opt_ageRange = None, opt_isNew = Some True, opt_limit = Some 2,
      opt_offset = None\<rparr>"

definition limitZero :: GetBooksOptions where
  "limitZero =
     \<lparr>opt_category = None, opt_ageRange = None, opt_isNew = None, opt_limit = Some 0,
      opt_offset = None\<rparr>"

definition emptyAgePreference :: Preference where
  "emptyAgePreference = \<lparr>ageRanges = Some [''''], categories = Some [''Fantasy'']\<rparr>"

definition unratedBook :: NewRelease where
  "unratedBook =
     \<lparr>nr_id = 1, nr_title = ''Dinosaur Discovery'', nr_authors = Some [''Robert Johnson''],
      nr_ageRange = Some '''', nr_categories = Some [''Adventure'']\<rparr>"

definition agePreference :: PartialInsertUserPreferences where
  "agePreference =
     \<lparr>pp_userId = None, pp_preferredCategories = Some (Some []),
      pp_preferredAgeRanges = Some (Some [''6-8 years'']), pp_notificationsEnabled = None\<rparr>"

definition scenario :: MemStorage where
  "scenario =
     snd (updateUserPreferences 1 agePreference
            (snd (createBook (demoBook ''B1'' True) newMemStorage)))"

section \<open>Properties\<close>

subsection \<open>The map operations\<close>


lemma map_set_keys: "fst ` set (map_set m k v) = insert k (fst ` set m)"
proof (induction m)
  case Nil
  then show ?case by simp
next
  case (Cons e m)
  then show ?case by (cases e) (simp add: insert_commute)
qed

lemma map_set_fresh: "k \<notin> set (map fst m) \<Longrightarrow> map_set m k v = m @ [(k, v)]"
  by (induction m) auto

lemma map_set_present:
  "k \<in> set (map fst m) \<Longrightarrow> distinct (map fst m) \<Longrightarrow>
   map_set m k v = map (\<lambda>e. if fst e = k then (k, v) else e) m"
proof (induction m)
  case Nil
  then show ?case by simp
next
  case (Cons e m)
  show ?case
  proof (cases "fst e = k")
    case True
    then have "k \<notin> set (map fst m)" using Cons.prems by auto
    then have "map (\<lambda>e. if fst e = k then (k, v) else e) m = m"
      by (induction m) auto
    with True show ?thesis by (cases e) simp
  next
    case False
    then show ?thesis using Cons by (cases e) auto
  qed
qed

lemma map_set_distinct: "distinct (map fst m) \<Longrightarrow> distinct (map fst (map_set m k v))"
proof (induction m)
  case Nil
  then show ?case by simp
next
  case (Cons e m)
  then show ?case by (cases e) (auto simp: map_set_keys)
qed

lemma map_set_entries:
  "e \<in> set (map_set m k v) \<Longrightarrow> e = (k, v) \<or> e \<in> set m"
  by (induction m) (auto split: if_splits)

lemma wf_tbl_set:
  "wf_tbl c idf m \<Longrightarrow> k < c' \<Longrightarrow> c \<le> c' \<Longrightarrow> idf v = k \<Longrightarrow> wf_tbl c' idf (map_set m k v)"
  unfolding wf_tbl_def map_keys_def list_all_iff
  by (auto simp: map_set_distinct dest!: map_set_entries)

lemma wf_tbl_delete: "wf_tbl c idf m \<Longrightarrow> wf_tbl c idf (map_delete m k)"
  unfolding wf_tbl_def map_keys_def map_delete_def list_all_iff
  by (auto simp: distinct_map_filter)

lemma wf_tbl_key_lt: "wf_tbl c idf m \<Longrightarrow> c \<notin> set (map fst m)"
  unfolding wf_tbl_def list_all_iff by auto

lemma wf_tbl_value: "wf_tbl c idf m \<Longrightarrow> v \<in> set (map_values m) \<Longrightarrow> (idf v, v) \<in> set m \<and> idf v < c"
  unfolding wf_tbl_def list_all_iff map_values_def by auto

lemma find_values_mem: "find P xs = Some v \<Longrightarrow> v \<in> set xs \<and> P v"
  by (auto simp: find_Some_iff)


lemma wf_tbl_set_fresh:
  "wf_tbl c idf m \<Longrightarrow> idf v = c \<Longrightarrow> wf_tbl (c + 1) idf (map_set m c v)"
  by (rule wf_tbl_set) auto

lemma wf_tbl_set_at:
  "wf_tbl c idf m \<Longrightarrow> k < c \<Longrightarrow> idf v = k \<Longrightarrow> wf_tbl c idf (map_set m k v)"
  by (rule wf_tbl_set) auto

lemma wf_tbl_get:
  "wf_tbl c idf m \<Longrightarrow> map_get m k = Some v \<Longrightarrow> k < c \<and> idf v = k"
  unfolding wf_tbl_def list_all_iff map_get_def by (auto dest!: map_of_SomeD)

lemma wf_tbl_find:
  "wf_tbl c idf m \<Longrightarrow> find P (map_values m) = Some v \<Longrightarrow> idf v < c"
  by (auto dest!: find_values_mem dest: wf_tbl_value)

lemma wf_tbl_fold_set:
  "wf_tbl c idf m \<Longrightarrow> \<forall>n\<in>set ns. idf n < c \<Longrightarrow> (\<And>n. idf (f n) = idf n) \<Longrightarrow>
   wf_tbl c idf (fold (\<lambda>n acc. map_set acc (idf n) (f n)) ns m)"
  by (induction ns arbitrary: m) (auto intro: wf_tbl_set_at)

lemma wf_tbl_fold_delete:
  "wf_tbl c idf m \<Longrightarrow> wf_tbl c idf (fold (\<lambda>n acc. map_delete acc (g n)) ns m)"
  by (induction ns arbitrary: m) (auto intro: wf_tbl_delete)

lemma wf_createUserPreferences: "wf_store s \<Longrightarrow> wf_store (snd (createUserPreferences p s))"
  by (simp add: wf_store_def createUserPreferences_def Let_def wf_tbl_set_fresh)

lemma wf_createUser: "wf_store s \<Longrightarrow> wf_store (snd (createUser u s))"
  by (simp add: wf_store_def createUser_def createUserPreferences_def Let_def wf_tbl_set_fresh)

lemma wf_updateUserPreferences: "wf_store s \<Longrightarrow> wf_store (snd (updateUserPreferences uid u s))"
proof (cases "find (\<lambda>p. prefs_userId p = uid) (map_values (userPreferences s))")
  case None
  assume "wf_store s"
  with None show ?thesis by (simp add: updateUserPreferences_def)
next
  case (Some prefs)
  assume wf: "wf_store s"
  then have t: "wf_tbl (userPreferencesId s) prefs_id (userPreferences s)"
    by (simp add: wf_store_def)
  have "prefs_id prefs < userPreferencesId s" by (rule wf_tbl_find [OF t Some])
  then have "wf_tbl (userPreferencesId s) prefs_id
               (map_set (userPreferences s) (prefs_id prefs) (merge_prefs prefs u))"
    by (intro wf_tbl_set_at [OF t]) (simp_all add: merge_prefs_def)
  with wf Some show ?thesis
    by (simp add: wf_store_def updateUserPreferences_def Let_def)
qed

lemma wf_createBook: "wf_store s \<Longrightarrow> wf_store (snd (createBook b s))"
  by (simp add: wf_store_def createBook_def Let_def wf_tbl_set_fresh)

lemma wf_updateBook: "wf_store s \<Longrightarrow> wf_store (snd (updateBook i u s))"
proof (cases "map_get (books s) i")
  case None
  assume "wf_store s"
  with None show ?thesis by (simp add: updateBook_def)
next
  case (Some book)
  assume wf: "wf_store s"
  then have t: "wf_tbl (bookId s) book_id (books s)"
    by (simp add: wf_store_def)
  have "i < bookId s \<and> book_id book = i" by (rule wf_tbl_get [OF t Some])
  then have "wf_tbl (bookId s) book_id (map_set (books s) i (merge_book book u))"
    by (intro wf_tbl_set_at [OF t]) (simp_all add: merge_book_def)
  with wf Some show ?thesis
    by (simp add: wf_store_def updateBook_def Let_def)
qed

lemma wf_addFavorite: "wf_store s \<Longrightarrow> wf_store (snd (addFavorite f now s))"
  by (simp add: wf_store_def addFavorite_def Let_def wf_tbl_set_fresh)

lemma wf_removeFavorite: "wf_store s \<Longrightarrow> wf_store (snd (removeFavorite uid bid s))"
  by (simp add: wf_store_def removeFavorite_def wf_tbl_delete split: option.splits)

lemma wf_createNotification: "wf_store s \<Longrightarrow> wf_store (snd (createNotification n now s))"
  by (simp add: wf_store_def createNotification_def Let_def wf_tbl_set_fresh)

lemma wf_markNotificationAsRead: "wf_store s \<Longrightarrow> wf_store (snd (markNotificationAsRead i s))"
proof (cases "map_get (notifications s) i")
  case None
  assume "wf_store s"
  with None show ?thesis by (simp add: markNotificationAsRead_def)
next
  case (Some n)
  assume wf: "wf_store s"
  then have t: "wf_tbl (notificationId s) n_id (notifications s)"
    by (simp add: wf_store_def)
  have "i < notificationId s \<and> n_id n = i" by (rule wf_tbl_get [OF t Some])
  then have "wf_tbl (notificationId s) n_id (map_set (notifications s) i (n\<lparr>n_isRead := True\<rparr>))"
    by (intro wf_tbl_set_at [OF t]) simp_all
  with wf Some show ?thesis
    by (simp add: wf_store_def markNotificationAsRead_def Let_def)
qed

lemma wf_markAllNotificationsAsRead:
  "wf_store s \<Longrightarrow> wf_store (snd (markAllNotificationsAsRead uid s))"
proof -
  assume wf: "wf_store s"
  then have n: "wf_tbl (notificationId s) n_id (notifications s)"
    by (simp add: wf_store_def)
  have "wf_tbl (notificationId s) n_id
          (fold (\<lambda>notification m. map_set m (n_id notification) (notification\<lparr>n_isRead := True\<rparr>))
             (filter (\<lambda>notification. n_userId notification = uid) (map_values (notifications s)))
             (notifications s))"
    using n by (intro wf_tbl_fold_set) (auto dest: wf_tbl_value)
  with wf show ?thesis
    by (simp add: wf_store_def markAllNotificationsAsRead_def Let_def)
qed

lemma wf_addRecentlyViewed: "wf_store s \<Longrightarrow> wf_store (snd (addRecentlyViewed r now s))"
proof (cases "find (isViewRow (irv_userId r) (irv_bookId r)) (map_values (recentlyViewed s))")
  case None
  assume "wf_store s"
  with None show ?thesis
    by (simp add: wf_store_def addRecentlyViewed_def Let_def wf_tbl_set_fresh)
next
  case (Some e)
  assume wf: "wf_store s"
  then have t: "wf_tbl (recentlyViewedId s) rv_id (recentlyViewed s)"
    by (simp add: wf_store_def)
  have "rv_id e < recentlyViewedId s" by (rule wf_tbl_find [OF t Some])
  then have "wf_tbl (recentlyViewedId s) rv_id
               (map_set (recentlyViewed s) (rv_id e) (e\<lparr>rv_viewedAt := now\<rparr>))"
    by (intro wf_tbl_set_at [OF t]) simp_all
  with wf Some show ?thesis
    by (simp add: wf_store_def addRecentlyViewed_def Let_def)
qed

lemma wf_clearRecentlyViewed: "wf_store s \<Longrightarrow> wf_store (snd (clearRecentlyViewed uid s))"
  by (simp add: wf_store_def clearRecentlyViewed_def Let_def wf_tbl_fold_delete)

lemma wf_createAuthor: "wf_store s \<Longrightarrow> wf_store (snd (createAuthor a s))"
  by (simp add: wf_store_def createAuthor_def Let_def wf_tbl_set_fresh)

lemma wf_createBookSeries: "wf_store s \<Longrightarrow> wf_store (snd (createBookSeries b s))"
  by (simp add: wf_store_def createBookSeries_def Let_def wf_tbl_set_fresh)

lemma wf_followAuthor: "wf_store s \<Longrightarrow> wf_store (snd (followAuthor f now s))"
  by (simp add: wf_store_def followAuthor_def Let_def wf_tbl_set_fresh split: option.splits)

lemma wf_unfollowAuthor: "wf_store s \<Longrightarrow> wf_store (snd (unfollowAuthor uid aid s))"
  by (simp add: wf_store_def unfollowAuthor_def wf_tbl_delete split: option.splits)

lemma wf_followSeries: "wf_store s \<Longrightarrow> wf_store (snd (followSeries f now s))"
  by (simp add: wf_store_def followSeries_def Let_def wf_tbl_set_fresh split: option.splits)

lemma wf_unfollowSeries: "wf_store s \<Longrightarrow> wf_store (snd (unfollowSeries uid sid s))"
  by (simp add: wf_store_def unfollowSeries_def wf_tbl_delete split: option.splits)

lemma wf_followCategory: "wf_store s \<Longrightarrow> wf_store (snd (followCategory f now s))"
  by (simp add: wf_store_def followCategory_def Let_def wf_tbl_set_fresh split: option.splits)

lemma wf_unfollowCategory: "wf_store s \<Longrightarrow> wf_store (snd (unfollowCategory uid c s))"
  by (simp add: wf_store_def unfollowCategory_def wf_tbl_delete split: option.splits)

lemma wf_emptyStorage: "wf_store emptyStorage"
  by (simp add: wf_store_def emptyStorage_def wf_tbl_def map_keys_def)

lemma wf_fold_createAuthor: "wf_store s \<Longrightarrow> wf_store (fold (\<lambda>a s. snd (createAuthor a s)) as s)"
  by (induction as arbitrary: s) (simp_all add: wf_createAuthor)

lemma wf_fold_createBookSeries:
  "wf_store s \<Longrightarrow> wf_store (fold (\<lambda>b s. snd (createBookSeries b s)) bs s)"
  by (induction bs arbitrary: s) (simp_all add: wf_createBookSeries)

lemma wf_newMemStorage: "wf_store newMemStorage"
  unfolding newMemStorage_def Let_def
  by (intro wf_fold_createBookSeries wf_fold_createAuthor wf_createUser wf_emptyStorage)

subsection \<open>Every operation keeps the store well formed\<close>

lemma wf_notifyBook: "wf_store s \<Longrightarrow> wf_store (notifyBook u now b s)"
  by (simp add: notifyBook_def wf_createNotification)

lemma wf_fold_notifyBook: "wf_store s \<Longrightarrow> wf_store (fold (notifyBook u now) bs s)"
  by (induction bs arbitrary: s) (simp_all add: wf_notifyBook)

lemma wf_notifyUser: "wf_store s \<Longrightarrow> wf_store (notifyUser gup nb now u s)"
  by (simp add: notifyUser_def wf_fold_notifyBook split: option.splits)

lemma wf_fold_notifyUser: "wf_store s \<Longrightarrow> wf_store (fold (notifyUser gup nb now) us s)"
  by (induction us arbitrary: s) (simp_all add: wf_notifyUser)

lemma wf_checkForNewBooks: "wf_store s \<Longrightarrow> wf_store (checkForNewBooks gnr gup now s)"
  by (simp add: checkForNewBooks_def Let_def wf_fold_notifyUser)

lemma wf_exec: "wf_store s \<Longrightarrow> wf_store (exec x s)"
  by (cases x)
     (simp_all add: wf_createUser wf_createUserPreferences wf_updateUserPreferences
        wf_createBook wf_updateBook wf_addFavorite wf_removeFavorite wf_createNotification
        wf_markNotificationAsRead wf_markAllNotificationsAsRead wf_addRecentlyViewed
        wf_clearRecentlyViewed wf_createAuthor wf_createBookSeries wf_followAuthor
        wf_unfollowAuthor wf_followSeries wf_unfollowSeries wf_followCategory
        wf_unfollowCategory wf_checkForNewBooks)

lemma wf_run: "wf_store s \<Longrightarrow> wf_store (run ops s)"
  unfolding run_def by (induction ops arbitrary: s) (simp_all add: wf_exec)

lemma wf_reachable: "wf_store (run ops newMemStorage)"
  by (rule wf_run [OF wf_newMemStorage])

subsection \<open>Favorites\<close>

lemma newMemStorage_favorites: "favorites newMemStorage = [] \<and> favoriteId newMemStorage = 1"
  by (simp add: newMemStorage_def emptyStorage_def createUser_def createUserPreferences_def
      createAuthor_def createBookSeries_def seedAuthors_def seedSeries_def Let_def)

lemma map_set_new:
  "wf_tbl c idf m \<Longrightarrow> map_set m c v = m @ [(c, v)]"
  by (rule map_set_fresh) (rule wf_tbl_key_lt)

lemma wf_favorites: "wf_store s \<Longrightarrow> wf_tbl (favoriteId s) fav_id (favorites s)"
  by (simp add: wf_store_def)

lemma wf_notifications: "wf_store s \<Longrightarrow> wf_tbl (notificationId s) n_id (notifications s)"
  by (simp add: wf_store_def)

lemma wf_recentlyViewed:
  "wf_store s \<Longrightarrow> wf_tbl (recentlyViewedId s) rv_id (recentlyViewed s)"
  by (simp add: wf_store_def)

lemma wf_books: "wf_store s \<Longrightarrow> wf_tbl (bookId s) book_id (books s)"
  by (simp add: wf_store_def)

lemma wf_followingAuthors:
  "wf_store s \<Longrightarrow> wf_tbl (followingAuthorId s) fa_id (followingAuthors s)"
  by (simp add: wf_store_def)

lemma wf_followingSeries:
  "wf_store s \<Longrightarrow> wf_tbl (followingSeriesId s) fs_id (followingSeries s)"
  by (simp add: wf_store_def)

lemma wf_followingCategories:
  "wf_store s \<Longrightarrow> wf_tbl (followingCategoryId s) fc_id (followingCategories s)"
  by (simp add: wf_store_def)

lemma addFavorite_favorites:
  "wf_store s \<Longrightarrow>
   favorites (snd (addFavorite f now s)) =
     favorites s @ [(favoriteId s, fst (addFavorite f now s))]"
  by (simp add: addFavorite_def Let_def map_set_new [OF wf_favorites])

lemma addFavorite_row:
  "fst (addFavorite f now s) =
     \<lparr>fav_id = favoriteId s, fav_userId = if_userId f, fav_bookId = if_bookId f,
      fav_createdAt = now\<rparr>"
  by (simp add: addFavorite_def Let_def)

lemma addFavorite_counter: "favoriteId (snd (addFavorite f now s)) = favoriteId s + 1"
  by (simp add: addFavorite_def Let_def)

text \<open>
  C1. The claim: two calls of \<^verbatim>\<open>addFavorite\<close> for one pair leave one row, the
  second returning the existing one. \<^verbatim>\<open>addFavorite\<close> makes no existence check
  (the handler of POST /api/favorites makes it, with \<^verbatim>\<open>isFavorite\<close>, and
  answers 400 to a repeat). As amended: on every well-formed store each call appends one
  new row under the next id, so two calls for a pair add two rows with different ids;
  \<^verbatim>\<open>isFavorite\<close> is true after the first call and after the second; and a call
  made when \<^verbatim>\<open>isFavorite\<close> is false on a store with at most one row per pair
  leaves at most one row per pair, one for the pair added.
\<close>

theorem addFavorite_always_inserts:
  "wf_store s \<Longrightarrow>
   (let r1 = addFavorite f t1 s; r2 = addFavorite f t2 (snd r1)
    in map_values (favorites (snd r1)) = map_values (favorites s) @ [fst r1] \<and>
       map_values (favorites (snd r2)) = map_values (favorites s) @ [fst r1, fst r2] \<and>
       fav_id (fst r1) = favoriteId s \<and> fav_id (fst r2) = favoriteId s + 1 \<and>
       isFavoriteRow (if_userId f) (if_bookId f) (fst r1) \<and>
       isFavoriteRow (if_userId f) (if_bookId f) (fst r2) \<and>
       isFavorite (if_userId f) (if_bookId f) (snd r1) \<and>
       isFavorite (if_userId f) (if_bookId f) (snd r2) \<and>
       length (favoriteRows (if_userId f) (if_bookId f) (snd r2)) =
         length (favoriteRows (if_userId f) (if_bookId f) s) + 2 \<and>
       (favoritesUnique s \<and> \<not> isFavorite (if_userId f) (if_bookId f) s \<longrightarrow>
          favoritesUnique (snd r1) \<and>
          length (favoriteRows (if_userId f) (if_bookId f) (snd r1)) = 1))"
proof -
  assume wf: "wf_store s"
  define r1 where "r1 = addFavorite f t1 s"
  define r2 where "r2 = addFavorite f t2 (snd r1)"
  have wf1: "wf_store (snd r1)" unfolding r1_def by (rule wf_addFavorite [OF wf])
  have f1: "favorites (snd r1) = favorites s @ [(favoriteId s, fst r1)]"
    unfolding r1_def by (rule addFavorite_favorites [OF wf])
  have f2: "favorites (snd r2) = favorites (snd r1) @ [(favoriteId (snd r1), fst r2)]"
    unfolding r2_def by (rule addFavorite_favorites [OF wf1])
  have row1: "fst r1 = \<lparr>fav_id = favoriteId s, fav_userId = if_userId f,
                        fav_bookId = if_bookId f, fav_createdAt = t1\<rparr>"
    unfolding r1_def by (rule addFavorite_row)
  have row2: "fst r2 = \<lparr>fav_id = favoriteId s + 1, fav_userId = if_userId f,
                        fav_bookId = if_bookId f, fav_createdAt = t2\<rparr>"
    unfolding r2_def r1_def by (simp add: addFavorite_row addFavorite_counter)
  have v1: "map_values (favorites (snd r1)) = map_values (favorites s) @ [fst r1]"
    by (simp add: f1 map_values_def)
  have v2: "map_values (favorites (snd r2)) = map_values (favorites s) @ [fst r1, fst r2]"
    by (simp add: f2 f1 map_values_def)
  have m1: "isFavoriteRow (if_userId f) (if_bookId f) (fst r1)"
    and m2: "isFavoriteRow (if_userId f) (if_bookId f) (fst r2)"
    by (simp_all add: row1 row2 isFavoriteRow_def)
  have i1: "isFavorite (if_userId f) (if_bookId f) (snd r1)"
    and i2: "isFavorite (if_userId f) (if_bookId f) (snd r2)"
    using m1 by (simp_all add: isFavorite_def v1 v2)
  have cnt: "length (favoriteRows (if_userId f) (if_bookId f) (snd r2)) =
         length (favoriteRows (if_userId f) (if_bookId f) s) + 2"
    using m1 m2 by (simp add: favoriteRows_def v2)
  have uniq: "favoritesUnique (snd r1) \<and>
          length (favoriteRows (if_userId f) (if_bookId f) (snd r1)) = 1"
    if "favoritesUnique s" "\<not> isFavorite (if_userId f) (if_bookId f) s"
  proof -
    have none: "\<forall>x\<in>set (map_values (favorites s)). \<not> isFavoriteRow (if_userId f) (if_bookId f) x"
      using that(2) by (simp add: isFavorite_def list_ex_iff)
    then have "filter (isFavoriteRow (if_userId f) (if_bookId f)) (map_values (favorites s)) = []"
      by (simp add: filter_empty_conv)
    moreover have "(if_userId f, if_bookId f) \<notin>
        (\<lambda>fav. (fav_userId fav, fav_bookId fav)) ` set (map_values (favorites s))"
      using none by (auto simp: isFavoriteRow_def)
    ultimately show ?thesis
      using that(1) m1 by (simp add: favoritesUnique_def favoriteRows_def v1 row1)
  qed
  show ?thesis
    unfolding Let_def r1_def [symmetric] r2_def [symmetric]
    using v1 v2 row1 row2 m1 m2 i1 i2 cnt uniq by simp
qed

theorem addFavorite_always_inserts_witness:
  "wf_store newMemStorage \<and>
   isFavorite 1 1 (snd (addFavorite \<lparr>if_userId = 1, if_bookId = 1\<rparr> 10 newMemStorage)) \<and>
   favoritesUnique (snd (addFavorite \<lparr>if_userId = 1, if_bookId = 1\<rparr> 10 newMemStorage)) \<and>
   length (favoriteRows 1 1
     (snd (addFavorite \<lparr>if_userId = 1, if_bookId = 1\<rparr> 20
        (snd (addFavorite \<lparr>if_userId = 1, if_bookId = 1\<rparr> 10 newMemStorage))))) = 2"
  using addFavorite_always_inserts [OF wf_newMemStorage, of "\<lparr>if_userId = 1, if_bookId = 1\<rparr>" 10 20]
    wf_newMemStorage
  by (simp add: Let_def newMemStorage_favorites favoritesUnique_def favoriteRows_def
      isFavorite_def map_values_def)

text \<open>
  On the store of the constructor, two calls for user 1 and book 1 leave two rows.
\<close>

theorem addFavorite_twice_counterexample:
  "length (favoriteRows 1 1
     (snd (addFavorite \<lparr>if_userId = 1, if_bookId = 1\<rparr> 20
        (snd (addFavorite \<lparr>if_userId = 1, if_bookId = 1\<rparr> 10 newMemStorage))))) = 2"
  by (simp add: addFavorite_def Let_def newMemStorage_favorites favoriteRows_def
      map_values_def isFavoriteRow_def)

subsection \<open>Unlinking\<close>

lemma find_filter:
  "find P xs = (case filter P xs of [] \<Rightarrow> None | x # _ \<Rightarrow> Some x)"
  by (induction xs) auto

lemma filter_remove1_first:
  "filter P xs = row # rest \<Longrightarrow> filter P (remove1 row xs) = rest"
proof (induction xs)
  case Nil
  then show ?case by simp
next
  case (Cons x xs)
  have "row \<in> set (filter P (x # xs))" using Cons.prems by simp
  then have "P row" by (auto split: if_splits)
  with Cons show ?case by (cases "P x") (auto split: if_splits)
qed

lemma map_delete_values:
  "wf_tbl c idf m \<Longrightarrow> e \<in> set (map_values m) \<Longrightarrow>
   map_values (map_delete m (idf e)) = remove1 e (map_values m)"
proof (induction m)
  case Nil
  then show ?case by (simp add: map_values_def)
next
  case (Cons x m)
  from Cons.prems(1) have wf: "wf_tbl c idf m"
    by (simp add: wf_tbl_def map_keys_def)
  from Cons.prems(1) have x: "idf (snd x) = fst x" and fresh: "fst x \<notin> fst ` set m"
    by (simp_all add: wf_tbl_def map_keys_def)
  show ?case
  proof (cases "snd x = e")
    case True
    have "filter (\<lambda>e'. fst e' \<noteq> fst x) m = m"
      using fresh by (induction m) auto
    with True x show ?thesis by (simp add: map_delete_def map_values_def)
  next
    case False
    with Cons.prems(2) have mem: "e \<in> set (map_values m)" by (simp add: map_values_def)
    then have "(idf e, e) \<in> set m" using wf by (simp add: wf_tbl_value)
    then have "fst x \<noteq> idf e" using fresh by force
    with False Cons.IH [OF wf mem] show ?thesis
      by (simp add: map_delete_def map_values_def)
  qed
qed

lemma unlinks_delete:
  assumes wf: "wf_tbl c idf (tbl s)"
    and none: "find P (map_values (tbl s)) = None \<Longrightarrow> r = (False, s)"
    and some: "\<And>e. find P (map_values (tbl s)) = Some e \<Longrightarrow>
                 fst r = True \<and> tbl (snd r) = map_delete (tbl s) (idf e)"
  shows "unlinks P tbl s r"
proof (cases "filter P (map_values (tbl s))")
  case Nil
  then have "find P (map_values (tbl s)) = None" by (simp add: find_filter)
  with Nil none show ?thesis by (simp add: unlinks_def)
next
  case (Cons row rest)
  then have f: "find P (map_values (tbl s)) = Some row" by (simp add: find_filter)
  have mem: "row \<in> set (map_values (tbl s))"
    using f by (auto dest: find_values_mem)
  have "map_values (tbl (snd r)) = remove1 row (map_values (tbl s))"
    using some [OF f] map_delete_values [OF wf mem] by simp
  with Cons some [OF f] show ?thesis
    by (simp add: unlinks_def filter_remove1_first)
qed

lemma at_most_one_row:
  assumes "distinct (map g xs)" and "\<And>x. P x \<Longrightarrow> g x = k"
  shows "length (filter P xs) \<le> 1"
  using assms(1)
proof (induction xs)
  case Nil
  then show ?case by simp
next
  case (Cons x xs)
  show ?case
  proof (cases "P x")
    case True
    have "filter P xs = []"
    proof (rule ccontr)
      assume "filter P xs \<noteq> []"
      then obtain y where y: "y \<in> set xs" "P y"
        by (auto simp: filter_empty_conv)
      then have "g y = g x" using assms(2) True by simp
      moreover from Cons.prems have "g x \<notin> g ` set xs" by simp
      ultimately show False using y(1) by (metis imageI)
    qed
    with True show ?thesis by simp
  next
    case False
    with Cons show ?thesis by simp
  qed
qed

lemma newMemStorage_wf_favorite_example: "wf_store oneFavorite \<and> wf_store twoFavorites"
  by (simp add: oneFavorite_def twoFavorites_def wf_addFavorite wf_newMemStorage)

lemma oneFavorite_favorites:
  "favorites oneFavorite =
     [(1, \<lparr>fav_id = 1, fav_userId = 1, fav_bookId = 1, fav_createdAt = 10\<rparr>)]"
  by (simp add: oneFavorite_def demoFavorite_def addFavorite_def Let_def
      newMemStorage_favorites)

lemma oneFavorite_counter: "favoriteId oneFavorite = 2"
  by (simp add: oneFavorite_def addFavorite_counter newMemStorage_favorites)

lemma twoFavorites_favorites:
  "favorites twoFavorites =
     [(1, \<lparr>fav_id = 1, fav_userId = 1, fav_bookId = 1, fav_createdAt = 10\<rparr>),
      (2, \<lparr>fav_id = 2, fav_userId = 1, fav_bookId = 1, fav_createdAt = 20\<rparr>)]"
  by (simp add: twoFavorites_def demoFavorite_def addFavorite_def Let_def
      oneFavorite_favorites oneFavorite_counter)

text \<open>
  C6. The claim: each unlink operation answers \<^verbatim>\<open>false\<close> on a store with no row
  for the pair and leaves it as it was, deletes exactly the matching row and answers
  \<^verbatim>\<open>true\<close> otherwise, and after a successful \<^verbatim>\<open>removeFavorite\<close> the pair is
  no favorite. The last part fails on a store with two rows for the pair, which
  \<^verbatim>\<open>addFavorite\<close> builds. As amended: the operations do as claimed, deleting the
  first row of the pair and nothing else; after \<^verbatim>\<open>removeFavorite\<close> the pair is
  still a favorite exactly when the store held more than one row for it, so it is none
  on a store with at most one row per pair.
\<close>

theorem unlink_operations:
  "wf_store s \<Longrightarrow>
   unlinks (isFavoriteRow uid bid) favorites s (removeFavorite uid bid s) \<and>
   snd (removeFavorite uid bid s) = s\<lparr>favorites := favorites (snd (removeFavorite uid bid s))\<rparr> \<and>
   unlinks (isAuthorRow uid aid) followingAuthors s (unfollowAuthor uid aid s) \<and>
   snd (unfollowAuthor uid aid s) =
     s\<lparr>followingAuthors := followingAuthors (snd (unfollowAuthor uid aid s))\<rparr> \<and>
   unlinks (isSeriesRow uid sid) followingSeries s (unfollowSeries uid sid s) \<and>
   snd (unfollowSeries uid sid s) =
     s\<lparr>followingSeries := followingSeries (snd (unfollowSeries uid sid s))\<rparr> \<and>
   unlinks (isCategoryRow uid cat) followingCategories s (unfollowCategory uid cat s) \<and>
   snd (unfollowCategory uid cat s) =
     s\<lparr>followingCategories := followingCategories (snd (unfollowCategory uid cat s))\<rparr> \<and>
   isFavorite uid bid (snd (removeFavorite uid bid s)) =
     (1 < length (favoriteRows uid bid s)) \<and>
   (favoritesUnique s \<longrightarrow> \<not> isFavorite uid bid (snd (removeFavorite uid bid s)))"
proof -
  assume wf: "wf_store s"
  have fav: "unlinks (isFavoriteRow uid bid) favorites s (removeFavorite uid bid s)"
    by (rule unlinks_delete [where tbl = favorites and idf = fav_id, OF wf_favorites [OF wf]]) (simp_all add: removeFavorite_def)
  have fav_frame: "snd (removeFavorite uid bid s) =
      s\<lparr>favorites := favorites (snd (removeFavorite uid bid s))\<rparr>"
    by (simp add: removeFavorite_def split: option.splits)
  have au: "unlinks (isAuthorRow uid aid) followingAuthors s (unfollowAuthor uid aid s)"
    by (rule unlinks_delete [where tbl = followingAuthors and idf = fa_id, OF wf_followingAuthors [OF wf]]) (simp_all add: unfollowAuthor_def)
  have au_frame: "snd (unfollowAuthor uid aid s) =
      s\<lparr>followingAuthors := followingAuthors (snd (unfollowAuthor uid aid s))\<rparr>"
    by (simp add: unfollowAuthor_def split: option.splits)
  have se: "unlinks (isSeriesRow uid sid) followingSeries s (unfollowSeries uid sid s)"
    by (rule unlinks_delete [where tbl = followingSeries and idf = fs_id, OF wf_followingSeries [OF wf]]) (simp_all add: unfollowSeries_def)
  have se_frame: "snd (unfollowSeries uid sid s) =
      s\<lparr>followingSeries := followingSeries (snd (unfollowSeries uid sid s))\<rparr>"
    by (simp add: unfollowSeries_def split: option.splits)
  have ca: "unlinks (isCategoryRow uid cat) followingCategories s (unfollowCategory uid cat s)"
    by (rule unlinks_delete [where tbl = followingCategories and idf = fc_id, OF wf_followingCategories [OF wf]])
       (simp_all add: unfollowCategory_def)
  have ca_frame: "snd (unfollowCategory uid cat s) =
      s\<lparr>followingCategories := followingCategories (snd (unfollowCategory uid cat s))\<rparr>"
    by (simp add: unfollowCategory_def split: option.splits)
  have after: "isFavorite uid bid (snd (removeFavorite uid bid s)) =
     (1 < length (favoriteRows uid bid s))"
    using fav
    by (auto simp: unlinks_def isFavorite_def favoriteRows_def list_ex_iff
        filter_empty_conv split: list.splits
        simp flip: length_greater_0_conv [of "filter P xs" for P xs])
  have uniq: "\<not> isFavorite uid bid (snd (removeFavorite uid bid s))" if u: "favoritesUnique s"
  proof -
    have "length (favoriteRows uid bid s) \<le> 1"
      unfolding favoriteRows_def
      by (rule at_most_one_row [OF u [unfolded favoritesUnique_def]])
         (simp add: isFavoriteRow_def)
    then show ?thesis using after by simp
  qed
  from fav fav_frame au au_frame se se_frame ca ca_frame after uniq show ?thesis
    by blast
qed

theorem unlink_operations_witness:
  "wf_store oneFavorite \<and> favoritesUnique oneFavorite \<and>
   fst (removeFavorite 1 1 oneFavorite) \<and>
   \<not> isFavorite 1 1 (snd (removeFavorite 1 1 oneFavorite)) \<and>
   fst (unfollowAuthor 1 1 oneFavorite) = False"
proof -
  have wf: "wf_store oneFavorite" using newMemStorage_wf_favorite_example by simp
  have u: "favoritesUnique oneFavorite"
    by (simp add: favoritesUnique_def map_values_def oneFavorite_favorites)
  have rows: "filter (isFavoriteRow 1 1) (map_values (favorites oneFavorite)) =
      [\<lparr>fav_id = 1, fav_userId = 1, fav_bookId = 1, fav_createdAt = 10\<rparr>]"
    by (simp add: map_values_def oneFavorite_favorites isFavoriteRow_def)
  have none: "filter (isAuthorRow 1 1) (map_values (followingAuthors oneFavorite)) = []"
    by (simp add: map_values_def oneFavorite_def addFavorite_def Let_def
        newMemStorage_def emptyStorage_def createUser_def createUserPreferences_def
        createAuthor_def createBookSeries_def seedAuthors_def seedSeries_def)
  note t = unlink_operations [OF wf, of 1 1 1 1 "''Fantasy''"]
  have a: "unlinks (isFavoriteRow 1 1) favorites oneFavorite (removeFavorite 1 1 oneFavorite)"
    using t by blast
  have b: "\<not> isFavorite 1 1 (snd (removeFavorite 1 1 oneFavorite))"
    using t u by blast
  have c: "unlinks (isAuthorRow 1 1) followingAuthors oneFavorite
             (unfollowAuthor 1 1 oneFavorite)"
    using t by blast
  have "fst (removeFavorite 1 1 oneFavorite)"
    using a rows by (simp add: unlinks_def)
  moreover have "fst (unfollowAuthor 1 1 oneFavorite) = False"
    using c none by (simp add: unlinks_def)
  ultimately show ?thesis using wf u b by simp
qed

text \<open>
  On a store where the pair (1, 1) was added twice, \<^verbatim>\<open>removeFavorite\<close> succeeds
  and the pair is a favorite still.
\<close>

theorem removeFavorite_duplicate_counterexample:
  "fst (removeFavorite 1 1 twoFavorites) \<and>
   isFavorite 1 1 (snd (removeFavorite 1 1 twoFavorites))"
  by (simp add: removeFavorite_def isFavorite_def map_values_def map_delete_def
      twoFavorites_favorites isFavoriteRow_def)

subsection \<open>Linking\<close>

lemma map_set_values_present:
  assumes wf: "wf_tbl c idf m" and mem: "e \<in> set (map_values m)"
  shows "map_values (map_set m (idf e) e') = map (\<lambda>x. if x = e then e' else x) (map_values m)"
proof -
  have ent: "(idf e, e) \<in> set m" using wf mem by (simp add: wf_tbl_value)
  have d: "distinct (map fst m)" using wf by (simp add: wf_tbl_def map_keys_def)
  have key: "fst x = idf e \<longleftrightarrow> snd x = e" if "x \<in> set m" for x
  proof
    assume "fst x = idf e"
    then have "(idf e, snd x) \<in> set m" using that by (metis prod.collapse)
    with ent d show "snd x = e" by (meson eq_key_imp_eq_value)
  next
    assume "snd x = e"
    moreover have "idf (snd x) = fst x"
      using wf that by (simp add: wf_tbl_def list_all_iff)
    ultimately show "fst x = idf e" by simp
  qed
  have "idf e \<in> set (map fst m)" using ent by force
  then have "map_set m (idf e) e' = map (\<lambda>x. if fst x = idf e then (idf e, e') else x) m"
    using d by (rule map_set_present)
  then show ?thesis using key by (simp add: map_values_def)
qed

lemma filter_map_replace:
  "P e' = P e \<Longrightarrow>
   filter P (map (\<lambda>x. if x = e then e' else x) xs) =
     map (\<lambda>x. if x = e then e' else x) (filter P xs)"
  by (induction xs) auto

lemma map_map_replace:
  "g e' = g e \<Longrightarrow> map g (map (\<lambda>x. if x = e then e' else x) xs) = map g xs"
  by (induction xs) auto

lemma distinct_values_delete:
  "distinct (map g (map_values m)) \<Longrightarrow> distinct (map g (map_values (map_delete m k)))"
  unfolding map_values_def map_delete_def map_map by (rule distinct_map_filter)

lemma distinct_values_fold_delete:
  "distinct (map g (map_values m)) \<Longrightarrow>
   distinct (map g (map_values (fold (\<lambda>n acc. map_delete acc (h n)) ns m)))"
  by (induction ns arbitrary: m) (simp_all add: distinct_values_delete)

lemma distinct_values_new:
  assumes wf: "wf_tbl c idf m" and d: "distinct (map g (map_values m))"
    and none: "find P (map_values m) = None" and p: "\<And>x. g x = g new \<Longrightarrow> P x"
  shows "distinct (map g (map_values (map_set m c new)))"
proof -
  have "g new \<notin> g ` set (map_values m)"
  proof
    assume "g new \<in> g ` set (map_values m)"
    then obtain x where "x \<in> set (map_values m)" "g x = g new" by auto
    with p none show False by (auto simp: find_None_iff)
  qed
  with d show ?thesis
    by (simp add: map_set_new [OF wf] map_values_def image_image comp_def)
qed

lemma links_follow:
  assumes wf: "wf_tbl (counter s) idf (tbl s)"
    and none: "find P (map_values (tbl s)) = None \<Longrightarrow>
                 fst r = new \<and> tbl (snd r) = map_set (tbl s) (counter s) new \<and>
                 counter (snd r) = counter s + 1"
    and some: "\<And>e. find P (map_values (tbl s)) = Some e \<Longrightarrow> r = (e, s)"
  shows "links P tbl counter new s r"
proof (cases "filter P (map_values (tbl s))")
  case Nil
  then have "find P (map_values (tbl s)) = None" by (simp add: find_filter)
  with Nil none show ?thesis by (simp add: links_def map_set_new [OF wf])
next
  case (Cons row rest)
  then have "find P (map_values (tbl s)) = Some row" by (simp add: find_filter)
  with Cons some show ?thesis by (simp add: links_def)
qed

lemma followAuthor_unique:
  assumes wf: "wf_store s" and u: "followedAuthorsUnique s"
  shows "followedAuthorsUnique (snd (followAuthor f now s))"
proof (cases "find (isAuthorRow (ifa_userId f) (ifa_authorId f)) (map_values (followingAuthors s))")
  case None
  have "distinct (map (\<lambda>entry. (fa_userId entry, fa_authorId entry))
          (map_values (map_set (followingAuthors s) (followingAuthorId s)
             \<lparr>fa_id = followingAuthorId s, fa_userId = ifa_userId f,
              fa_authorId = ifa_authorId f, fa_followedAt = now\<rparr>)))"
    by (rule distinct_values_new [OF wf_followingAuthors [OF wf]
          u [unfolded followedAuthorsUnique_def] None])
       (simp add: isAuthorRow_def)
  with None show ?thesis by (simp add: followAuthor_def followedAuthorsUnique_def Let_def)
next
  case (Some e)
  with u show ?thesis by (simp add: followAuthor_def)
qed

lemma followSeries_unique:
  assumes wf: "wf_store s" and u: "followedSeriesUnique s"
  shows "followedSeriesUnique (snd (followSeries f now s))"
proof (cases "find (isSeriesRow (ifs_userId f) (ifs_seriesId f)) (map_values (followingSeries s))")
  case None
  have "distinct (map (\<lambda>entry. (fs_userId entry, fs_seriesId entry))
          (map_values (map_set (followingSeries s) (followingSeriesId s)
             \<lparr>fs_id = followingSeriesId s, fs_userId = ifs_userId f,
              fs_seriesId = ifs_seriesId f, fs_followedAt = now\<rparr>)))"
    by (rule distinct_values_new [OF wf_followingSeries [OF wf]
          u [unfolded followedSeriesUnique_def] None])
       (simp add: isSeriesRow_def)
  with None show ?thesis by (simp add: followSeries_def followedSeriesUnique_def Let_def)
next
  case (Some e)
  with u show ?thesis by (simp add: followSeries_def)
qed

lemma followCategory_unique:
  assumes wf: "wf_store s" and u: "followedCategoriesUnique s"
  shows "followedCategoriesUnique (snd (followCategory f now s))"
proof (cases "find (isCategoryRow (ifc_userId f) (ifc_category f))
                (map_values (followingCategories s))")
  case None
  have "distinct (map (\<lambda>entry. (fc_userId entry, fc_category entry))
          (map_values (map_set (followingCategories s) (followingCategoryId s)
             \<lparr>fc_id = followingCategoryId s, fc_userId = ifc_userId f,
              fc_category = ifc_category f, fc_followedAt = now\<rparr>)))"
    by (rule distinct_values_new [OF wf_followingCategories [OF wf]
          u [unfolded followedCategoriesUnique_def] None])
       (simp add: isCategoryRow_def)
  with None show ?thesis
    by (simp add: followCategory_def followedCategoriesUnique_def Let_def)
next
  case (Some e)
  with u show ?thesis by (simp add: followCategory_def)
qed

lemma unfollowAuthor_unique:
  "followedAuthorsUnique s \<Longrightarrow> followedAuthorsUnique (snd (unfollowAuthor uid aid s))"
  by (simp add: unfollowAuthor_def followedAuthorsUnique_def distinct_values_delete
      split: option.splits)

lemma unfollowSeries_unique:
  "followedSeriesUnique s \<Longrightarrow> followedSeriesUnique (snd (unfollowSeries uid sid s))"
  by (simp add: unfollowSeries_def followedSeriesUnique_def distinct_values_delete
      split: option.splits)

lemma unfollowCategory_unique:
  "followedCategoriesUnique s \<Longrightarrow> followedCategoriesUnique (snd (unfollowCategory uid c s))"
  by (simp add: unfollowCategory_def followedCategoriesUnique_def distinct_values_delete
      split: option.splits)

lemma clearRecentlyViewed_unique:
  "viewsUnique s \<Longrightarrow> viewsUnique (snd (clearRecentlyViewed uid s))"
  by (simp add: clearRecentlyViewed_def viewsUnique_def Let_def distinct_values_fold_delete)

lemma addRecentlyViewed_unique:
  assumes wf: "wf_store s" and u: "viewsUnique s"
  shows "viewsUnique (snd (addRecentlyViewed r now s))"
proof (cases "find (isViewRow (irv_userId r) (irv_bookId r)) (map_values (recentlyViewed s))")
  case None
  have "distinct (map (\<lambda>entry. (rv_userId entry, rv_bookId entry))
          (map_values (map_set (recentlyViewed s) (recentlyViewedId s)
             \<lparr>rv_id = recentlyViewedId s, rv_userId = irv_userId r,
              rv_bookId = irv_bookId r, rv_viewedAt = now\<rparr>)))"
    by (rule distinct_values_new [OF wf_recentlyViewed [OF wf]
          u [unfolded viewsUnique_def] None])
       (simp add: isViewRow_def)
  with None show ?thesis by (simp add: addRecentlyViewed_def viewsUnique_def Let_def)
next
  case (Some e)
  then have mem: "e \<in> set (map_values (recentlyViewed s))"
    by (auto dest: find_values_mem)
  have "map (\<lambda>entry. (rv_userId entry, rv_bookId entry))
          (map_values (map_set (recentlyViewed s) (rv_id e) (e\<lparr>rv_viewedAt := now\<rparr>))) =
        map (\<lambda>entry. (rv_userId entry, rv_bookId entry)) (map_values (recentlyViewed s))"
    by (simp add: map_set_values_present [OF wf_recentlyViewed [OF wf] mem] map_map_replace)
  with Some u show ?thesis by (simp add: addRecentlyViewed_def viewsUnique_def Let_def)
qed

subsection \<open>The matcher writes notifications only\<close>

lemma notifyBook_frame:
  "\<exists>ns c. notifyBook u now b s = s\<lparr>notifications := ns, notificationId := c\<rparr>"
proof (cases "alreadyNotified u b s")
  case True
  then have "notifyBook u now b s =
      s\<lparr>notifications := notifications s, notificationId := notificationId s\<rparr>"
    by (simp add: notifyBook_def)
  then show ?thesis by blast
next
  case False
  then have "notifyBook u now b s =
      s\<lparr>notifications := notifications (notifyBook u now b s),
        notificationId := notificationId s + 1\<rparr>"
    by (simp add: notifyBook_def createNotification_def Let_def)
  then show ?thesis by blast
qed

lemma fold_notifyBook_frame:
  "\<exists>ns c. fold (notifyBook u now) bs s = s\<lparr>notifications := ns, notificationId := c\<rparr>"
proof (induction bs arbitrary: s)
  case Nil
  have "s = s\<lparr>notifications := notifications s, notificationId := notificationId s\<rparr>"
    by simp
  then show ?case by (metis fold_simps(1))
next
  case (Cons b bs)
  obtain ns c where 1: "notifyBook u now b s = s\<lparr>notifications := ns, notificationId := c\<rparr>"
    using notifyBook_frame by blast
  obtain ns' c' where "fold (notifyBook u now) bs (notifyBook u now b s) =
      (notifyBook u now b s)\<lparr>notifications := ns', notificationId := c'\<rparr>"
    using Cons by blast
  with 1 have "fold (notifyBook u now) (b # bs) s =
      s\<lparr>notifications := ns', notificationId := c'\<rparr>" by simp
  then show ?case by blast
qed

lemma notifyUser_frame:
  "\<exists>ns c. notifyUser gup nb now u s = s\<lparr>notifications := ns, notificationId := c\<rparr>"
proof (cases "gup (user_id u) s")
  case None
  then have "notifyUser gup nb now u s =
      s\<lparr>notifications := notifications s, notificationId := notificationId s\<rparr>"
    by (simp add: notifyUser_def)
  then show ?thesis by blast
next
  case (Some p)
  then show ?thesis using fold_notifyBook_frame by (simp add: notifyUser_def)
qed

lemma fold_notifyUser_frame:
  "\<exists>ns c. fold (notifyUser gup nb now) us s = s\<lparr>notifications := ns, notificationId := c\<rparr>"
proof (induction us arbitrary: s)
  case Nil
  have "s = s\<lparr>notifications := notifications s, notificationId := notificationId s\<rparr>"
    by simp
  then show ?case by (metis fold_simps(1))
next
  case (Cons u us)
  obtain ns c where 1: "notifyUser gup nb now u s = s\<lparr>notifications := ns, notificationId := c\<rparr>"
    using notifyUser_frame by blast
  obtain ns' c' where "fold (notifyUser gup nb now) us (notifyUser gup nb now u s) =
      (notifyUser gup nb now u s)\<lparr>notifications := ns', notificationId := c'\<rparr>"
    using Cons by blast
  with 1 have "fold (notifyUser gup nb now) (u # us) s =
      s\<lparr>notifications := ns', notificationId := c'\<rparr>" by simp
  then show ?case by blast
qed

lemma checkForNewBooks_frame:
  "\<exists>ns c. checkForNewBooks gnr gup now s = s\<lparr>notifications := ns, notificationId := c\<rparr>"
proof (cases "length (gnr s) = 0")
  case True
  then have "checkForNewBooks gnr gup now s =
      s\<lparr>notifications := notifications s, notificationId := notificationId s\<rparr>"
    by (simp add: checkForNewBooks_def)
  then show ?thesis by blast
next
  case False
  then show ?thesis using fold_notifyUser_frame by (simp add: checkForNewBooks_def Let_def)
qed

subsection \<open>At most one row per pair in every store the program reaches\<close>

lemma checkForNewBooks_relations:
  "recentlyViewed (checkForNewBooks gnr gup now s) = recentlyViewed s \<and>
   followingAuthors (checkForNewBooks gnr gup now s) = followingAuthors s \<and>
   followingSeries (checkForNewBooks gnr gup now s) = followingSeries s \<and>
   followingCategories (checkForNewBooks gnr gup now s) = followingCategories s"
proof -
  obtain ns c where
    "checkForNewBooks gnr gup now s = s\<lparr>notifications := ns, notificationId := c\<rparr>"
    using checkForNewBooks_frame by blast
  then show ?thesis by simp
qed

lemma exec_viewsUnique: "wf_store s \<Longrightarrow> viewsUnique s \<Longrightarrow> viewsUnique (exec x s)"
proof (cases x)
  case (AddRecentlyViewed r now)
  assume "wf_store s" "viewsUnique s"
  then show ?thesis unfolding AddRecentlyViewed by (simp add: addRecentlyViewed_unique)
next
  case (ClearRecentlyViewed uid)
  assume "wf_store s" "viewsUnique s"
  then show ?thesis unfolding ClearRecentlyViewed by (simp add: clearRecentlyViewed_unique)
qed (simp_all add: viewsUnique_def checkForNewBooks_relations
      createUser_def createUserPreferences_def updateUserPreferences_def createBook_def
      updateBook_def addFavorite_def removeFavorite_def createNotification_def
      markNotificationAsRead_def markAllNotificationsAsRead_def createAuthor_def
      createBookSeries_def followAuthor_def unfollowAuthor_def followSeries_def
      unfollowSeries_def followCategory_def unfollowCategory_def Let_def
      split: option.splits)

lemma exec_followedAuthorsUnique:
  "wf_store s \<Longrightarrow> followedAuthorsUnique s \<Longrightarrow> followedAuthorsUnique (exec x s)"
proof (cases x)
  case (FollowAuthor f now)
  assume "wf_store s" "followedAuthorsUnique s"
  then show ?thesis unfolding FollowAuthor by (simp add: followAuthor_unique)
next
  case (UnfollowAuthor uid aid)
  assume "wf_store s" "followedAuthorsUnique s"
  then show ?thesis unfolding UnfollowAuthor by (simp add: unfollowAuthor_unique)
qed (simp_all add: followedAuthorsUnique_def checkForNewBooks_relations
      createUser_def createUserPreferences_def updateUserPreferences_def createBook_def
      updateBook_def addFavorite_def removeFavorite_def createNotification_def
      markNotificationAsRead_def markAllNotificationsAsRead_def createAuthor_def
      createBookSeries_def addRecentlyViewed_def clearRecentlyViewed_def followSeries_def
      unfollowSeries_def followCategory_def unfollowCategory_def Let_def
      split: option.splits)

lemma exec_followedSeriesUnique:
  "wf_store s \<Longrightarrow> followedSeriesUnique s \<Longrightarrow> followedSeriesUnique (exec x s)"
proof (cases x)
  case (FollowSeries f now)
  assume "wf_store s" "followedSeriesUnique s"
  then show ?thesis unfolding FollowSeries by (simp add: followSeries_unique)
next
  case (UnfollowSeries uid sid)
  assume "wf_store s" "followedSeriesUnique s"
  then show ?thesis unfolding UnfollowSeries by (simp add: unfollowSeries_unique)
qed (simp_all add: followedSeriesUnique_def checkForNewBooks_relations
      createUser_def createUserPreferences_def updateUserPreferences_def createBook_def
      updateBook_def addFavorite_def removeFavorite_def createNotification_def
      markNotificationAsRead_def markAllNotificationsAsRead_def createAuthor_def
      createBookSeries_def addRecentlyViewed_def clearRecentlyViewed_def followAuthor_def
      unfollowAuthor_def followCategory_def unfollowCategory_def Let_def
      split: option.splits)

lemma exec_followedCategoriesUnique:
  "wf_store s \<Longrightarrow> followedCategoriesUnique s \<Longrightarrow> followedCategoriesUnique (exec x s)"
proof (cases x)
  case (FollowCategory f now)
  assume "wf_store s" "followedCategoriesUnique s"
  then show ?thesis unfolding FollowCategory by (simp add: followCategory_unique)
next
  case (UnfollowCategory uid c)
  assume "wf_store s" "followedCategoriesUnique s"
  then show ?thesis unfolding UnfollowCategory by (simp add: unfollowCategory_unique)
qed (simp_all add: followedCategoriesUnique_def checkForNewBooks_relations
      createUser_def createUserPreferences_def updateUserPreferences_def createBook_def
      updateBook_def addFavorite_def removeFavorite_def createNotification_def
      markNotificationAsRead_def markAllNotificationsAsRead_def createAuthor_def
      createBookSeries_def addRecentlyViewed_def clearRecentlyViewed_def followAuthor_def
      unfollowAuthor_def followSeries_def unfollowSeries_def Let_def
      split: option.splits)

lemma run_unique:
  "wf_store s \<Longrightarrow>
   viewsUnique s \<and> followedAuthorsUnique s \<and> followedSeriesUnique s \<and>
   followedCategoriesUnique s \<Longrightarrow>
   viewsUnique (run ops s) \<and> followedAuthorsUnique (run ops s) \<and>
   followedSeriesUnique (run ops s) \<and> followedCategoriesUnique (run ops s)"
proof (induction ops arbitrary: s)
  case Nil
  then show ?case by (simp add: run_def)
next
  case (Cons x ops)
  have "wf_store (exec x s)" using Cons.prems(1) by (rule wf_exec)
  moreover have "viewsUnique (exec x s) \<and> followedAuthorsUnique (exec x s) \<and>
      followedSeriesUnique (exec x s) \<and> followedCategoriesUnique (exec x s)"
    using Cons.prems
    by (simp add: exec_viewsUnique exec_followedAuthorsUnique exec_followedSeriesUnique
        exec_followedCategoriesUnique)
  ultimately show ?case using Cons.IH [of "exec x s"] by (simp add: run_def)
qed

lemma newMemStorage_relations:
  "recentlyViewed newMemStorage = [] \<and> followingAuthors newMemStorage = [] \<and>
   followingSeries newMemStorage = [] \<and> followingCategories newMemStorage = [] \<and>
   notifications newMemStorage = [] \<and> books newMemStorage = []"
  by (simp add: newMemStorage_def emptyStorage_def createUser_def createUserPreferences_def
      createAuthor_def createBookSeries_def seedAuthors_def seedSeries_def Let_def)

lemma reachable_unique:
  "viewsUnique (run ops newMemStorage) \<and> followedAuthorsUnique (run ops newMemStorage) \<and>
   followedSeriesUnique (run ops newMemStorage) \<and>
   followedCategoriesUnique (run ops newMemStorage)"
  by (rule run_unique [OF wf_newMemStorage])
     (simp add: viewsUnique_def followedAuthorsUnique_def followedSeriesUnique_def
        followedCategoriesUnique_def newMemStorage_relations map_values_def)

subsection \<open>Following\<close>

text \<open>
  C7. Each of \<^verbatim>\<open>followAuthor\<close>, \<^verbatim>\<open>followSeries\<close> and
  \<^verbatim>\<open>followCategory\<close>, on every well-formed store: when a row of the pair exists
  it returns the first such row and the store unchanged; otherwise it appends one row
  for the pair under the counter's value and changes nothing but that relation and its
  counter. A store with at most one row per pair keeps that property, and every store
  the constructor and any operations produce has it. The operations are total functions
  to a row and a store: no call raises.
\<close>

theorem follow_operations:
  "wf_store s \<Longrightarrow>
   links (isAuthorRow (ifa_userId fa) (ifa_authorId fa)) followingAuthors followingAuthorId
     \<lparr>fa_id = followingAuthorId s, fa_userId = ifa_userId fa, fa_authorId = ifa_authorId fa,
      fa_followedAt = now\<rparr> s (followAuthor fa now s) \<and>
   snd (followAuthor fa now s) =
     s\<lparr>followingAuthorId := followingAuthorId (snd (followAuthor fa now s)),
       followingAuthors := followingAuthors (snd (followAuthor fa now s))\<rparr> \<and>
   (followedAuthorsUnique s \<longrightarrow> followedAuthorsUnique (snd (followAuthor fa now s))) \<and>
   links (isSeriesRow (ifs_userId fs) (ifs_seriesId fs)) followingSeries followingSeriesId
     \<lparr>fs_id = followingSeriesId s, fs_userId = ifs_userId fs, fs_seriesId = ifs_seriesId fs,
      fs_followedAt = now\<rparr> s (followSeries fs now s) \<and>
   snd (followSeries fs now s) =
     s\<lparr>followingSeriesId := followingSeriesId (snd (followSeries fs now s)),
       followingSeries := followingSeries (snd (followSeries fs now s))\<rparr> \<and>
   (followedSeriesUnique s \<longrightarrow> followedSeriesUnique (snd (followSeries fs now s))) \<and>
   links (isCategoryRow (ifc_userId fc) (ifc_category fc)) followingCategories
     followingCategoryId
     \<lparr>fc_id = followingCategoryId s, fc_userId = ifc_userId fc,
      fc_category = ifc_category fc, fc_followedAt = now\<rparr> s (followCategory fc now s) \<and>
   snd (followCategory fc now s) =
     s\<lparr>followingCategoryId := followingCategoryId (snd (followCategory fc now s)),
       followingCategories := followingCategories (snd (followCategory fc now s))\<rparr> \<and>
   (followedCategoriesUnique s \<longrightarrow> followedCategoriesUnique (snd (followCategory fc now s))) \<and>
   followedAuthorsUnique (run ops newMemStorage) \<and>
   followedSeriesUnique (run ops newMemStorage) \<and>
   followedCategoriesUnique (run ops newMemStorage)"
proof -
  assume wf: "wf_store s"
  have a1: "links (isAuthorRow (ifa_userId fa) (ifa_authorId fa)) followingAuthors
      followingAuthorId
      \<lparr>fa_id = followingAuthorId s, fa_userId = ifa_userId fa, fa_authorId = ifa_authorId fa,
       fa_followedAt = now\<rparr> s (followAuthor fa now s)"
    by (rule links_follow [where idf = fa_id and tbl = followingAuthors and counter = followingAuthorId,
          OF wf_followingAuthors [OF wf]])
       (simp_all add: followAuthor_def Let_def)
  have a2: "snd (followAuthor fa now s) =
     s\<lparr>followingAuthorId := followingAuthorId (snd (followAuthor fa now s)),
       followingAuthors := followingAuthors (snd (followAuthor fa now s))\<rparr>"
    by (simp add: followAuthor_def Let_def split: option.splits)
  have s1: "links (isSeriesRow (ifs_userId fs) (ifs_seriesId fs)) followingSeries
      followingSeriesId
      \<lparr>fs_id = followingSeriesId s, fs_userId = ifs_userId fs, fs_seriesId = ifs_seriesId fs,
       fs_followedAt = now\<rparr> s (followSeries fs now s)"
    by (rule links_follow [where idf = fs_id and tbl = followingSeries and counter = followingSeriesId,
          OF wf_followingSeries [OF wf]])
       (simp_all add: followSeries_def Let_def)
  have s2: "snd (followSeries fs now s) =
     s\<lparr>followingSeriesId := followingSeriesId (snd (followSeries fs now s)),
       followingSeries := followingSeries (snd (followSeries fs now s))\<rparr>"
    by (simp add: followSeries_def Let_def split: option.splits)
  have c1: "links (isCategoryRow (ifc_userId fc) (ifc_category fc)) followingCategories
      followingCategoryId
      \<lparr>fc_id = followingCategoryId s, fc_userId = ifc_userId fc,
       fc_category = ifc_category fc, fc_followedAt = now\<rparr> s (followCategory fc now s)"
    by (rule links_follow [where idf = fc_id and tbl = followingCategories and counter = followingCategoryId,
          OF wf_followingCategories [OF wf]])
       (simp_all add: followCategory_def Let_def)
  have c2: "snd (followCategory fc now s) =
     s\<lparr>followingCategoryId := followingCategoryId (snd (followCategory fc now s)),
       followingCategories := followingCategories (snd (followCategory fc now s))\<rparr>"
    by (simp add: followCategory_def Let_def split: option.splits)
  show ?thesis
    using a1 a2 s1 s2 c1 c2 followAuthor_unique [OF wf] followSeries_unique [OF wf]
      followCategory_unique [OF wf] reachable_unique [of ops]
    by blast
qed

theorem follow_operations_witness:
  "wf_store newMemStorage \<and> followedAuthorsUnique newMemStorage \<and>
   followedAuthorsUnique
     (snd (followAuthor \<lparr>ifa_userId = 1, ifa_authorId = 2\<rparr> 5 newMemStorage)) \<and>
   followingAuthors (snd (followAuthor \<lparr>ifa_userId = 1, ifa_authorId = 2\<rparr> 5 newMemStorage)) =
     [(followingAuthorId newMemStorage,
       \<lparr>fa_id = followingAuthorId newMemStorage, fa_userId = 1, fa_authorId = 2,
        fa_followedAt = 5\<rparr>)]"
proof -
  note t = follow_operations [OF wf_newMemStorage,
      of "\<lparr>ifa_userId = 1, ifa_authorId = 2\<rparr>" 5 "\<lparr>ifs_userId = 1, ifs_seriesId = 2\<rparr>"
         "\<lparr>ifc_userId = 1, ifc_category = ''Fantasy''\<rparr>" "[]"]
  have u: "followedAuthorsUnique newMemStorage"
    by (simp add: followedAuthorsUnique_def newMemStorage_relations map_values_def)
  have a: "followedAuthorsUnique
     (snd (followAuthor \<lparr>ifa_userId = 1, ifa_authorId = 2\<rparr> 5 newMemStorage))"
    using t u by blast
  have "links (isAuthorRow 1 2) followingAuthors followingAuthorId
      \<lparr>fa_id = followingAuthorId newMemStorage, fa_userId = 1, fa_authorId = 2,
       fa_followedAt = 5\<rparr> newMemStorage
      (followAuthor \<lparr>ifa_userId = 1, ifa_authorId = 2\<rparr> 5 newMemStorage)"
    using t by simp
  then have "followingAuthors
      (snd (followAuthor \<lparr>ifa_userId = 1, ifa_authorId = 2\<rparr> 5 newMemStorage)) =
     [(followingAuthorId newMemStorage,
       \<lparr>fa_id = followingAuthorId newMemStorage, fa_userId = 1, fa_authorId = 2,
        fa_followedAt = 5\<rparr>)]"
    by (simp add: links_def newMemStorage_relations map_values_def)
  with a u wf_newMemStorage show ?thesis by simp
qed

subsection \<open>Recently viewed\<close>

lemma addRecentlyViewed_rows:
  assumes wf: "wf_store s" and u: "viewsUnique s"
  shows "viewRows (irv_userId r) (irv_bookId r) (snd (addRecentlyViewed r now s)) =
           [fst (addRecentlyViewed r now s)] \<and>
         rv_viewedAt (fst (addRecentlyViewed r now s)) = now"
proof (cases "find (isViewRow (irv_userId r) (irv_bookId r)) (map_values (recentlyViewed s))")
  case None
  then have "filter (isViewRow (irv_userId r) (irv_bookId r)) (map_values (recentlyViewed s)) = []"
    by (simp add: find_filter split: list.splits)
  with None show ?thesis
    by (simp add: addRecentlyViewed_def Let_def viewRows_def
        map_set_new [OF wf_recentlyViewed [OF wf]] map_values_def isViewRow_def)
next
  case (Some e)
  then have mem: "e \<in> set (map_values (recentlyViewed s))"
    and pe: "isViewRow (irv_userId r) (irv_bookId r) e"
    by (auto dest: find_values_mem)
  have "length (filter (isViewRow (irv_userId r) (irv_bookId r))
          (map_values (recentlyViewed s))) \<le> 1"
    by (rule at_most_one_row [OF u [unfolded viewsUnique_def]]) (simp add: isViewRow_def)
  moreover obtain rest where
    "filter (isViewRow (irv_userId r) (irv_bookId r)) (map_values (recentlyViewed s)) = e # rest"
    using Some by (auto simp: find_filter split: list.splits)
  ultimately have rows:
    "filter (isViewRow (irv_userId r) (irv_bookId r)) (map_values (recentlyViewed s)) = [e]"
    by simp
  have "isViewRow (irv_userId r) (irv_bookId r) (e\<lparr>rv_viewedAt := now\<rparr>) =
        isViewRow (irv_userId r) (irv_bookId r) e"
    by (simp add: isViewRow_def)
  then have "filter (isViewRow (irv_userId r) (irv_bookId r))
      (map_values (map_set (recentlyViewed s) (rv_id e) (e\<lparr>rv_viewedAt := now\<rparr>))) =
      [e\<lparr>rv_viewedAt := now\<rparr>]"
    by (simp add: map_set_values_present [OF wf_recentlyViewed [OF wf] mem]
        filter_map_replace rows)
  with Some show ?thesis by (simp add: addRecentlyViewed_def Let_def viewRows_def)
qed

lemma addRecentlyViewed_again:
  assumes wf: "wf_store s"
    and rows: "viewRows (irv_userId r) (irv_bookId r) s = [e]"
  shows "fst (addRecentlyViewed r now s) = e\<lparr>rv_viewedAt := now\<rparr> \<and>
         map fst (recentlyViewed (snd (addRecentlyViewed r now s))) =
           map fst (recentlyViewed s)"
proof -
  have f: "find (isViewRow (irv_userId r) (irv_bookId r)) (map_values (recentlyViewed s)) =
      Some e"
    using rows by (simp add: find_filter viewRows_def)
  then have mem: "e \<in> set (map_values (recentlyViewed s))" by (auto dest: find_values_mem)
  have ent: "(rv_id e, e) \<in> set (recentlyViewed s)"
    using wf_tbl_value [OF wf_recentlyViewed [OF wf] mem] by simp
  have d: "distinct (map fst (recentlyViewed s))"
    using wf_recentlyViewed [OF wf] by (simp add: wf_tbl_def map_keys_def)
  have "rv_id e \<in> set (map fst (recentlyViewed s))" using ent by force
  then have "map fst (map_set (recentlyViewed s) (rv_id e) (e\<lparr>rv_viewedAt := now\<rparr>)) =
      map fst (recentlyViewed s)"
    using d by (simp add: map_set_present comp_def if_distrib [of fst] cong: if_cong)
  with f show ?thesis by (simp add: addRecentlyViewed_def Let_def)
qed

text \<open>
  C8. Every store the constructor and any operations produce holds at most one
  recently-viewed row per (user, book) pair. On a well-formed store with that property,
  two calls of \<^verbatim>\<open>addRecentlyViewed\<close> for one pair, at the times \<open>t1\<close> and
  \<open>t2\<close>, leave the property in force and one row for the pair: the row the second
  call returns, which is the row of the first call with \<^verbatim>\<open>viewedAt\<close> set to
  \<open>t2\<close>, under the same id; the second call adds no key to the collection.
\<close>

theorem addRecentlyViewed_one_row:
  "wf_store s \<Longrightarrow> viewsUnique s \<Longrightarrow>
   (let r1 = addRecentlyViewed rv t1 s; r2 = addRecentlyViewed rv t2 (snd r1)
    in viewsUnique (snd r1) \<and> viewsUnique (snd r2) \<and>
       viewRows (irv_userId rv) (irv_bookId rv) (snd r1) = [fst r1] \<and>
       viewRows (irv_userId rv) (irv_bookId rv) (snd r2) = [fst r2] \<and>
       fst r2 = (fst r1)\<lparr>rv_viewedAt := t2\<rparr> \<and>
       rv_viewedAt (fst r2) = t2 \<and> rv_id (fst r2) = rv_id (fst r1) \<and>
       map fst (recentlyViewed (snd r2)) = map fst (recentlyViewed (snd r1))) \<and>
   viewsUnique (run ops newMemStorage)"
proof -
  assume wf: "wf_store s" and u: "viewsUnique s"
  define r1 where "r1 = addRecentlyViewed rv t1 s"
  define r2 where "r2 = addRecentlyViewed rv t2 (snd r1)"
  have wf1: "wf_store (snd r1)" unfolding r1_def by (rule wf_addRecentlyViewed [OF wf])
  have u1: "viewsUnique (snd r1)" unfolding r1_def by (rule addRecentlyViewed_unique [OF wf u])
  have u2: "viewsUnique (snd r2)" unfolding r2_def by (rule addRecentlyViewed_unique [OF wf1 u1])
  have rows1: "viewRows (irv_userId rv) (irv_bookId rv) (snd r1) = [fst r1]"
    unfolding r1_def using addRecentlyViewed_rows [OF wf u] by simp
  have rows2: "viewRows (irv_userId rv) (irv_bookId rv) (snd r2) = [fst r2]"
    unfolding r2_def using addRecentlyViewed_rows [OF wf1 u1] by simp
  have again: "fst r2 = (fst r1)\<lparr>rv_viewedAt := t2\<rparr> \<and>
      map fst (recentlyViewed (snd r2)) = map fst (recentlyViewed (snd r1))"
    unfolding r2_def by (rule addRecentlyViewed_again [OF wf1 rows1])
  then have "rv_viewedAt (fst r2) = t2 \<and> rv_id (fst r2) = rv_id (fst r1)" by simp
  with u1 u2 rows1 rows2 again reachable_unique [of ops] show ?thesis
    unfolding Let_def r1_def [symmetric] r2_def [symmetric] by simp
qed

theorem addRecentlyViewed_one_row_witness:
  "wf_store newMemStorage \<and> viewsUnique newMemStorage \<and>
   viewRows 1 7
     (snd (addRecentlyViewed \<lparr>irv_userId = 1, irv_bookId = 7\<rparr> 200
        (snd (addRecentlyViewed \<lparr>irv_userId = 1, irv_bookId = 7\<rparr> 100 newMemStorage)))) =
     [\<lparr>rv_id = recentlyViewedId newMemStorage, rv_userId = 1, rv_bookId = 7,
       rv_viewedAt = 200\<rparr>]"
proof -
  have u: "viewsUnique newMemStorage"
    by (simp add: viewsUnique_def newMemStorage_relations map_values_def)
  have first: "fst (addRecentlyViewed \<lparr>irv_userId = 1, irv_bookId = 7\<rparr> 100 newMemStorage) =
      \<lparr>rv_id = recentlyViewedId newMemStorage, rv_userId = 1, rv_bookId = 7,
       rv_viewedAt = 100\<rparr>"
    by (simp add: addRecentlyViewed_def Let_def newMemStorage_relations map_values_def)
  show ?thesis
    using addRecentlyViewed_one_row [OF wf_newMemStorage u,
        of "\<lparr>irv_userId = 1, irv_bookId = 7\<rparr>" 100 200 "[]"] wf_newMemStorage u first
    by (simp add: Let_def)
qed

subsection \<open>Notifications\<close>

lemma wf_tbl_values_inj:
  assumes wf: "wf_tbl c idf m"
    and x: "x \<in> set (map_values m)" and y: "y \<in> set (map_values m)"
    and eq: "idf x = idf y"
  shows "x = y"
proof -
  have "(idf x, x) \<in> set m" "(idf y, y) \<in> set m"
    using wf x y by (simp_all add: wf_tbl_value)
  moreover have "distinct (map fst m)" using wf by (simp add: wf_tbl_def map_keys_def)
  ultimately show ?thesis using eq by (metis eq_key_imp_eq_value)
qed

lemma map_set_entries_present:
  assumes wf: "wf_tbl c idf m" and mem: "n \<in> set (map_values m)"
  shows "map_set m (idf n) v = map (\<lambda>e. if snd e = n then (fst e, v) else e) m"
proof -
  have ent: "(idf n, n) \<in> set m" using wf mem by (simp add: wf_tbl_value)
  have d: "distinct (map fst m)" using wf by (simp add: wf_tbl_def map_keys_def)
  have key: "fst x = idf n \<longleftrightarrow> snd x = n" if "x \<in> set m" for x
  proof
    assume "fst x = idf n"
    then have "(idf n, snd x) \<in> set m" using that by (metis prod.collapse)
    with ent d show "snd x = n" by (meson eq_key_imp_eq_value)
  next
    assume "snd x = n"
    moreover have "idf (snd x) = fst x"
      using wf that by (simp add: wf_tbl_def list_all_iff)
    ultimately show "fst x = idf n" by simp
  qed
  have "idf n \<in> set (map fst m)" using ent by force
  then have "map_set m (idf n) v = map (\<lambda>x. if fst x = idf n then (idf n, v) else x) m"
    using d by (rule map_set_present)
  also have "\<dots> = map (\<lambda>e. if snd e = n then (fst e, v) else e) m"
  proof (rule map_cong [OF refl])
    fix x assume "x \<in> set m"
    then show "(if fst x = idf n then (idf n, v) else x) = (if snd x = n then (fst x, v) else x)"
      using key [of x] by (cases "snd x = n") simp_all
  qed
  finally show ?thesis .
qed

lemma fold_set_values:
  assumes wf: "wf_tbl c idf m" and sub: "set ns \<subseteq> set (map_values m)"
    and d: "distinct ns" and f: "\<And>n. idf (f n) = idf n"
  shows "fold (\<lambda>n acc. map_set acc (idf n) (f n)) ns m =
         map (\<lambda>e. if snd e \<in> set ns then (fst e, f (snd e)) else e) m"
  using wf sub d
proof (induction ns arbitrary: m)
  case Nil
  then show ?case by simp
next
  case (Cons n ns)
  let ?m' = "map_set m (idf n) (f n)"
  have mem: "n \<in> set (map_values m)" using Cons.prems(2) by simp
  have m': "?m' = map (\<lambda>e. if snd e = n then (fst e, f n) else e) m"
    by (rule map_set_entries_present [OF Cons.prems(1) mem])
  have lt: "idf n < c" using wf_tbl_value [OF Cons.prems(1) mem] by simp
  have wf': "wf_tbl c idf ?m'"
    by (rule wf_tbl_set_at [OF Cons.prems(1) lt]) (rule f)
  have notin: "f n \<notin> set ns"
  proof
    assume a: "f n \<in> set ns"
    then have "f n \<in> set (map_values m)" using Cons.prems(2) by auto
    then have "f n = n"
      using mem f by (intro wf_tbl_values_inj [OF Cons.prems(1)]) simp_all
    with a Cons.prems(3) show False by simp
  qed
  have sub': "set ns \<subseteq> set (map_values ?m')"
  proof
    fix x assume x: "x \<in> set ns"
    then have "x \<in> set (map_values m)" and "x \<noteq> n"
      using Cons.prems(2,3) by auto
    then show "x \<in> set (map_values ?m')"
      unfolding m' map_values_def by force
  qed
  have "fold (\<lambda>n acc. map_set acc (idf n) (f n)) ns ?m' =
        map (\<lambda>e. if snd e \<in> set ns then (fst e, f (snd e)) else e) ?m'"
    using Cons.IH [OF wf' sub'] Cons.prems(3) by simp
  also have "\<dots> = map (\<lambda>e. if snd e \<in> set (n # ns) then (fst e, f (snd e)) else e) m"
    unfolding m' using notin by auto
  finally show ?case by simp
qed

lemma wf_tbl_values_distinct: "wf_tbl c idf m \<Longrightarrow> distinct (map_values m)"
proof -
  assume wf: "wf_tbl c idf m"
  then have "map idf (map_values m) = map fst m"
    by (simp add: wf_tbl_def list_all_iff map_values_def)
  moreover have "distinct (map fst m)" using wf by (simp add: wf_tbl_def map_keys_def)
  ultimately show ?thesis by (metis distinct_map)
qed

lemma markAllNotificationsAsRead_notifications:
  assumes wf: "wf_store s"
  shows "notifications (snd (markAllNotificationsAsRead uid s)) =
         map (\<lambda>e. (fst e, if n_userId (snd e) = uid then (snd e)\<lparr>n_isRead := True\<rparr> else snd e))
           (notifications s)"
proof -
  let ?ns = "filter (\<lambda>n. n_userId n = uid) (map_values (notifications s))"
  have "fold (\<lambda>n acc. map_set acc (n_id n) (n\<lparr>n_isRead := True\<rparr>)) ?ns (notifications s) =
        map (\<lambda>e. if snd e \<in> set ?ns then (fst e, (snd e)\<lparr>n_isRead := True\<rparr>) else e)
          (notifications s)"
    by (rule fold_set_values [OF wf_notifications [OF wf]])
       (simp_all add: wf_tbl_values_distinct [OF wf_notifications [OF wf]])
  also have "\<dots> = map (\<lambda>e. (fst e, if n_userId (snd e) = uid
                                then (snd e)\<lparr>n_isRead := True\<rparr> else snd e))
                      (notifications s)"
    by (auto simp: map_values_def)
  finally show ?thesis by (simp add: markAllNotificationsAsRead_def Let_def)
qed

text \<open>
  C10. On every well-formed store and for every user id,
  \<^verbatim>\<open>markAllNotificationsAsRead\<close> answers \<^verbatim>\<open>true\<close>; the store it returns is the
  given one with \<^verbatim>\<open>isRead\<close> set in each notification of that user, every other
  field, every other notification, their keys and order, and every other collection
  being as before; and the user's unread count is 0 afterwards.
\<close>

theorem markAllNotificationsAsRead_effect:
  "wf_store s \<Longrightarrow>
   fst (markAllNotificationsAsRead uid s) = True \<and>
   snd (markAllNotificationsAsRead uid s) =
     s\<lparr>notifications :=
         map (\<lambda>e. (fst e, if n_userId (snd e) = uid then (snd e)\<lparr>n_isRead := True\<rparr>
                          else snd e))
           (notifications s)\<rparr> \<and>
   getUnreadNotificationCount uid (snd (markAllNotificationsAsRead uid s)) = 0"
proof -
  assume wf: "wf_store s"
  note n = markAllNotificationsAsRead_notifications [OF wf, of uid]
  have 1: "fst (markAllNotificationsAsRead uid s) = True"
    by (simp add: markAllNotificationsAsRead_def Let_def)
  have "snd (markAllNotificationsAsRead uid s) =
      s\<lparr>notifications := notifications (snd (markAllNotificationsAsRead uid s))\<rparr>"
    by (simp add: markAllNotificationsAsRead_def Let_def)
  then have 2: "snd (markAllNotificationsAsRead uid s) =
     s\<lparr>notifications :=
         map (\<lambda>e. (fst e, if n_userId (snd e) = uid then (snd e)\<lparr>n_isRead := True\<rparr>
                          else snd e))
           (notifications s)\<rparr>"
    using n by simp
  have 3: "getUnreadNotificationCount uid (snd (markAllNotificationsAsRead uid s)) = 0"
    unfolding getUnreadNotificationCount_def n map_values_def
    by (auto simp: filter_empty_conv)
  from 1 2 3 show ?thesis by blast
qed

lemma twoNotifications_notifications:
  "notifications twoNotifications =
     [(1, \<lparr>n_id = 1, n_userId = 1, n_title = ''Hello'', n_message = ''A message'',
           n_type = Some ''info'', n_isRead = False, n_createdAt = 10, n_bookId = None\<rparr>),
      (2, \<lparr>n_id = 2, n_userId = 2, n_title = ''Hello'', n_message = ''A message'',
           n_type = Some ''info'', n_isRead = False, n_createdAt = 20, n_bookId = None\<rparr>)]"
  by (simp add: twoNotifications_def demoNotification_def createNotification_def Let_def
      newMemStorage_def emptyStorage_def createUser_def createUserPreferences_def
      createAuthor_def createBookSeries_def seedAuthors_def seedSeries_def)

lemma wf_twoNotifications: "wf_store twoNotifications"
  by (simp add: twoNotifications_def wf_createNotification wf_newMemStorage)

theorem markAllNotificationsAsRead_effect_witness:
  "wf_store twoNotifications \<and>
   getUnreadNotificationCount 1 twoNotifications = 1 \<and>
   getUnreadNotificationCount 1 (snd (markAllNotificationsAsRead 1 twoNotifications)) = 0 \<and>
   getUnreadNotificationCount 2 (snd (markAllNotificationsAsRead 1 twoNotifications)) = 1"
proof -
  note t = markAllNotificationsAsRead_effect [OF wf_twoNotifications, of 1]
  have "snd (markAllNotificationsAsRead 1 twoNotifications) =
     twoNotifications\<lparr>notifications :=
         map (\<lambda>e. (fst e, if n_userId (snd e) = 1 then (snd e)\<lparr>n_isRead := True\<rparr>
                          else snd e))
           (notifications twoNotifications)\<rparr>"
    using t by blast
  then have c2: "getUnreadNotificationCount 2
      (snd (markAllNotificationsAsRead 1 twoNotifications)) = 1"
    by (simp add: getUnreadNotificationCount_def twoNotifications_notifications map_values_def)
  have c1: "getUnreadNotificationCount 1 twoNotifications = 1"
    by (simp add: getUnreadNotificationCount_def twoNotifications_notifications map_values_def)
  have c0: "getUnreadNotificationCount 1
      (snd (markAllNotificationsAsRead 1 twoNotifications)) = 0"
    using t by blast
  from wf_twoNotifications c1 c0 c2 show ?thesis by blast
qed

lemma readIds_map_mono:
  assumes "\<And>e. e \<in> set m \<Longrightarrow> fst (h e) = fst e \<and> (n_isRead (snd e) \<longrightarrow> n_isRead (snd (h e)))"
  shows "set (map fst (filter (\<lambda>e. n_isRead (snd e)) m)) \<subseteq>
         set (map fst (filter (\<lambda>e. n_isRead (snd e)) (map h m)))"
proof
  fix k assume "k \<in> set (map fst (filter (\<lambda>e. n_isRead (snd e)) m))"
  then obtain e where e: "e \<in> set m" "n_isRead (snd e)" "fst e = k" by auto
  then have "h e \<in> set (map h m)" "n_isRead (snd (h e))" "fst (h e) = k"
    using assms [OF e(1)] by auto
  then show "k \<in> set (map fst (filter (\<lambda>e. n_isRead (snd e)) (map h m)))"
    by force
qed

lemma createNotification_readIds:
  "wf_store s \<Longrightarrow> readIds (snd (createNotification n now s)) = readIds s"
  by (simp add: createNotification_def Let_def readIds_def
      map_set_new [OF wf_notifications])

lemma markNotificationAsRead_readIds:
  assumes wf: "wf_store s"
  shows "set (readIds s) \<subseteq> set (readIds (snd (markNotificationAsRead i s)))"
proof (cases "map_get (notifications s) i")
  case None
  then show ?thesis by (simp add: markNotificationAsRead_def)
next
  case (Some n)
  have d: "distinct (map fst (notifications s))"
    using wf_notifications [OF wf] by (simp add: wf_tbl_def map_keys_def)
  have "i \<in> set (map fst (notifications s))"
    using Some by (auto simp: map_get_def dest: map_of_SomeD intro: rev_image_eqI)
  then have "map_set (notifications s) i (n\<lparr>n_isRead := True\<rparr>) =
      map (\<lambda>e. if fst e = i then (i, n\<lparr>n_isRead := True\<rparr>) else e) (notifications s)"
    using d by (rule map_set_present)
  moreover have "set (map fst (filter (\<lambda>e. n_isRead (snd e)) (notifications s))) \<subseteq>
      set (map fst (filter (\<lambda>e. n_isRead (snd e))
        (map (\<lambda>e. if fst e = i then (i, n\<lparr>n_isRead := True\<rparr>) else e) (notifications s))))"
    by (rule readIds_map_mono) simp
  ultimately show ?thesis using Some
    by (simp add: markNotificationAsRead_def Let_def readIds_def)
qed

lemma markAllNotificationsAsRead_readIds:
  assumes wf: "wf_store s"
  shows "set (readIds s) \<subseteq> set (readIds (snd (markAllNotificationsAsRead uid s)))"
  unfolding readIds_def markAllNotificationsAsRead_notifications [OF wf]
  by (rule readIds_map_mono) simp

lemma notifyBook_readIds: "wf_store s \<Longrightarrow> readIds (notifyBook u now b s) = readIds s"
  by (simp add: notifyBook_def createNotification_readIds)

lemma fold_notifyBook_readIds:
  "wf_store s \<Longrightarrow> readIds (fold (notifyBook u now) bs s) = readIds s"
  by (induction bs arbitrary: s) (simp_all add: notifyBook_readIds wf_notifyBook)

lemma notifyUser_readIds: "wf_store s \<Longrightarrow> readIds (notifyUser gup nb now u s) = readIds s"
  by (simp add: notifyUser_def fold_notifyBook_readIds split: option.splits)

lemma fold_notifyUser_readIds:
  "wf_store s \<Longrightarrow> readIds (fold (notifyUser gup nb now) us s) = readIds s"
  by (induction us arbitrary: s) (simp_all add: notifyUser_readIds wf_notifyUser)

lemma checkForNewBooks_readIds:
  "wf_store s \<Longrightarrow> readIds (checkForNewBooks gnr gup now s) = readIds s"
  by (simp add: checkForNewBooks_def Let_def fold_notifyUser_readIds)

lemma exec_readIds: "wf_store s \<Longrightarrow> set (readIds s) \<subseteq> set (readIds (exec x s))"
proof (cases x)
  case (CreateNotification n now)
  assume "wf_store s"
  then show ?thesis unfolding CreateNotification by (simp add: createNotification_readIds)
next
  case (MarkNotificationAsRead i)
  assume "wf_store s"
  then show ?thesis unfolding MarkNotificationAsRead
    by (simp add: markNotificationAsRead_readIds)
next
  case (MarkAllNotificationsAsRead uid)
  assume "wf_store s"
  then show ?thesis unfolding MarkAllNotificationsAsRead
    by (simp add: markAllNotificationsAsRead_readIds)
next
  case (CheckForNewBooks gnr gup now)
  assume "wf_store s"
  then show ?thesis unfolding CheckForNewBooks by (simp add: checkForNewBooks_readIds)
qed (simp_all add: readIds_def
      createUser_def createUserPreferences_def updateUserPreferences_def createBook_def
      updateBook_def addFavorite_def removeFavorite_def createAuthor_def
      createBookSeries_def addRecentlyViewed_def clearRecentlyViewed_def followAuthor_def
      unfollowAuthor_def followSeries_def unfollowSeries_def followCategory_def
      unfollowCategory_def Let_def split: option.splits)

lemma run_readIds: "wf_store s \<Longrightarrow> set (readIds s) \<subseteq> set (readIds (run ops s))"
proof (induction ops arbitrary: s)
  case Nil
  then show ?case by (simp add: run_def)
next
  case (Cons x ops)
  have "set (readIds s) \<subseteq> set (readIds (exec x s))" using Cons.prems by (rule exec_readIds)
  moreover have "set (readIds (exec x s)) \<subseteq> set (readIds (run ops (exec x s)))"
    using Cons.prems by (intro Cons.IH wf_exec)
  ultimately show ?case by (simp add: run_def)
qed

text \<open>
  C9. On every well-formed store, \<^verbatim>\<open>createNotification\<close> stores its notification
  with \<^verbatim>\<open>isRead = false\<close> under a key the collection did not have, so it
  overwrites none; and whatever operations follow, in any number and order, the
  notifications that are read stay in the store and stay read: the only change of an
  \<^verbatim>\<open>isRead\<close> is from false to true.
\<close>

theorem notification_isRead_one_way:
  "wf_store s \<Longrightarrow>
   n_isRead (fst (createNotification n now s)) = False \<and>
   notificationId s \<notin> set (map_keys (notifications s)) \<and>
   map_get (notifications (snd (createNotification n now s))) (notificationId s) =
     Some (fst (createNotification n now s)) \<and>
   set (readIds s) \<subseteq> set (readIds (exec x s)) \<and>
   set (readIds s) \<subseteq> set (readIds (run ops s))"
proof -
  assume wf: "wf_store s"
  have fresh: "notificationId s \<notin> set (map fst (notifications s))"
    by (rule wf_tbl_key_lt [OF wf_notifications [OF wf]])
  then have "map_of (notifications s) (notificationId s) = None"
    by (simp add: map_of_eq_None_iff)
  then have "map_get (notifications (snd (createNotification n now s))) (notificationId s) =
     Some (fst (createNotification n now s))"
    by (simp add: createNotification_def Let_def map_get_def
        map_set_new [OF wf_notifications [OF wf]] map_add_def)
  moreover have "n_isRead (fst (createNotification n now s)) = False"
    by (simp add: createNotification_def Let_def)
  ultimately show ?thesis
    using fresh exec_readIds [OF wf, of x] run_readIds [OF wf, of ops]
    by (simp add: map_keys_def)
qed

theorem notification_isRead_one_way_witness:
  "wf_store (exec (MarkNotificationAsRead 1) twoNotifications) \<and>
   readIds (exec (MarkNotificationAsRead 1) twoNotifications) = [1] \<and>
   set (readIds (exec (MarkNotificationAsRead 1) twoNotifications)) \<subseteq>
     set (readIds (run [CreateNotification (demoNotification 1) 30,
                        MarkAllNotificationsAsRead 2, MarkNotificationAsRead 1]
            (exec (MarkNotificationAsRead 1) twoNotifications)))"
proof -
  have wf: "wf_store (exec (MarkNotificationAsRead 1) twoNotifications)"
    by (rule wf_exec [OF wf_twoNotifications])
  have "readIds (exec (MarkNotificationAsRead 1) twoNotifications) = [1]"
    by (simp add: readIds_def markNotificationAsRead_def map_get_def Let_def
        twoNotifications_notifications)
  then show ?thesis
    using notification_isRead_one_way [OF wf, of "demoNotification 1" 30
        "MarkNotificationAsRead 1"
        "[CreateNotification (demoNotification 1) 30,
          MarkAllNotificationsAsRead 2, MarkNotificationAsRead 1]"] wf
    by blast
qed

subsection \<open>Users and their default preferences\<close>

lemma find_values_map_set_new:
  assumes none: "find P (map_values m) = None" and p: "P v"
  shows "find P (map_values (map_set m k v)) = Some v"
  using none
proof (induction m)
  case Nil
  then show ?case using p by (simp add: map_values_def)
next
  case (Cons e m)
  then show ?case using p by (cases e) (auto simp: map_values_def split: if_splits)
qed

text \<open>
  C5. The claim: after \<^verbatim>\<open>createUser\<close>, \<^verbatim>\<open>getUserPreferences\<close> of the new id
  returns a row with both lists empty and notifications enabled.
  \<^verbatim>\<open>getUserPreferences\<close> returns the first row that carries the user id, and
  nothing keeps \<^verbatim>\<open>createUserPreferences\<close> from storing a row for an id not yet
  assigned. As amended: on a store where no preferences row carries the id about to be
  assigned, \<^verbatim>\<open>createUser\<close> returns the user it stored under that id, and
  \<^verbatim>\<open>getUserPreferences\<close> of the id returns the default row, written before
  \<^verbatim>\<open>createUser\<close> returns.
\<close>

theorem createUser_default_preferences:
  "getUserPreferences (userId s) s = None \<Longrightarrow>
   user_id (fst (createUser u s)) = userId s \<and>
   fst (createUser u s) =
     \<lparr>user_id = userId s, username = iu_username u, password = iu_password u\<rparr> \<and>
   users (snd (createUser u s)) = map_set (users s) (userId s) (fst (createUser u s)) \<and>
   getUserPreferences (user_id (fst (createUser u s))) (snd (createUser u s)) =
     Some \<lparr>prefs_id = userPreferencesId s, prefs_userId = userId s,
           preferredCategories = Some [], preferredAgeRanges = Some [],
           notificationsEnabled = Some True\<rparr>"
proof -
  assume none: "getUserPreferences (userId s) s = None"
  have "find (\<lambda>prefs. prefs_userId prefs = userId s)
          (map_values (map_set (userPreferences s) (userPreferencesId s)
             \<lparr>prefs_id = userPreferencesId s, prefs_userId = userId s,
              preferredCategories = Some [], preferredAgeRanges = Some [],
              notificationsEnabled = Some True\<rparr>)) =
        Some \<lparr>prefs_id = userPreferencesId s, prefs_userId = userId s,
              preferredCategories = Some [], preferredAgeRanges = Some [],
              notificationsEnabled = Some True\<rparr>"
    by (rule find_values_map_set_new [OF none [unfolded getUserPreferences_def]]) simp
  then show ?thesis
    by (simp add: createUser_def createUserPreferences_def getUserPreferences_def Let_def)
qed

lemma newMemStorage_users:
  "users newMemStorage = [(1, \<lparr>user_id = 1, username = ''demo'', password = ''password''\<rparr>)] \<and>
   userId newMemStorage = 2 \<and> userPreferencesId newMemStorage = 2 \<and>
   userPreferences newMemStorage =
     [(1, \<lparr>prefs_id = 1, prefs_userId = 1, preferredCategories = Some [],
           preferredAgeRanges = Some [], notificationsEnabled = Some True\<rparr>)]"
  by (simp add: newMemStorage_def emptyStorage_def createUser_def createUserPreferences_def
      createAuthor_def createBookSeries_def seedAuthors_def seedSeries_def Let_def)

theorem createUser_default_preferences_witness:
  "getUserPreferences (userId newMemStorage) newMemStorage = None \<and>
   getUserPreferences 2
     (snd (createUser \<lparr>iu_username = ''ann'', iu_password = ''pw''\<rparr> newMemStorage)) =
     Some \<lparr>prefs_id = 2, prefs_userId = 2, preferredCategories = Some [],
           preferredAgeRanges = Some [], notificationsEnabled = Some True\<rparr>"
proof -
  have none: "getUserPreferences (userId newMemStorage) newMemStorage = None"
    by (simp add: getUserPreferences_def newMemStorage_users map_values_def)
  note t = createUser_default_preferences [OF none,
      of "\<lparr>iu_username = ''ann'', iu_password = ''pw''\<rparr>"]
  have a: "user_id (fst (createUser \<lparr>iu_username = ''ann'', iu_password = ''pw''\<rparr>
      newMemStorage)) = 2"
    using t by (simp add: newMemStorage_users)
  have "getUserPreferences
      (user_id (fst (createUser \<lparr>iu_username = ''ann'', iu_password = ''pw''\<rparr>
         newMemStorage)))
      (snd (createUser \<lparr>iu_username = ''ann'', iu_password = ''pw''\<rparr> newMemStorage)) =
     Some \<lparr>prefs_id = userPreferencesId newMemStorage, prefs_userId = userId newMemStorage,
           preferredCategories = Some [], preferredAgeRanges = Some [],
           notificationsEnabled = Some True\<rparr>"
    using t by blast
  then show ?thesis using none unfolding a by (simp add: newMemStorage_users)
qed

text \<open>
  A preferences row for user id 2 is stored before that id is assigned; the user created
  next receives id 2, and \<^verbatim>\<open>getUserPreferences\<close> returns the earlier row.
\<close>

theorem createUser_preferences_counterexample:
  "user_id (fst (createUser \<lparr>iu_username = ''ann'', iu_password = ''pw''\<rparr> earlyPreferences))
     = 2 \<and>
   map_option preferredCategories
     (getUserPreferences 2
        (snd (createUser \<lparr>iu_username = ''ann'', iu_password = ''pw''\<rparr> earlyPreferences))) =
     Some (Some [''Fantasy''])"
  by (simp add: earlyPreferences_def createUser_def createUserPreferences_def
      getUserPreferences_def Let_def newMemStorage_users map_values_def)

subsection \<open>Listing books\<close>

lemma js_slice_take: "0 \<le> l \<Longrightarrow> js_slice xs 0 l = take (nat l) xs"
  by (simp add: js_slice_def Let_def min_def)

lemma js_slice_take_drop:
  "0 \<le> off \<Longrightarrow> 0 \<le> l \<Longrightarrow> js_slice xs off (off + l) = take (nat l) (drop (nat off) xs)"
proof -
  assume off: "0 \<le> off" and l: "0 \<le> l"
  show ?thesis
  proof (cases "off \<le> int (length xs)")
    case True
    then have "js_slice xs off (off + l) =
        take (nat (min (off + l) (int (length xs)) - off)) (drop (nat off) xs)"
      using off l by (simp add: js_slice_def Let_def min_def)
    also have "\<dots> = take (nat l) (drop (nat off) xs)"
    proof (cases "off + l \<le> int (length xs)")
      case True
      then show ?thesis by (simp add: min_def)
    next
      case False
      then have "nat (min (off + l) (int (length xs)) - off) = length (drop (nat off) xs)"
        using off by (simp add: min_def nat_diff_distrib)
      moreover have "length (drop (nat off) xs) \<le> nat l"
        using False off by (simp add: nat_le_iff)
      ultimately show ?thesis by simp
    qed
    finally show ?thesis .
  next
    case False
    then show ?thesis using off l by (simp add: js_slice_def Let_def min_def)
  qed
qed

lemma hasCategory_optList: "hasCategory c b = (c \<in> set (optList (book_categories b)))"
  by (simp add: hasCategory_def optList_def split: option.splits)

lemma set_filterBooks:
  "set (filterBooks options bs) = {b \<in> set bs. passesFilters options b}"
  by (cases "opt_category options"; cases "opt_ageRange options"; cases "opt_isNew options")
     (auto simp: filterBooks_def passesFilters_def truthy_string_def hasCategory_optList
        Let_def)

lemma distinct_filterBooks: "distinct bs \<Longrightarrow> distinct (filterBooks options bs)"
  by (simp add: filterBooks_def Let_def split: option.splits)

lemma wf_books_distinct:
  assumes wf: "wf_store s"
  shows "distinct (map book_id (map_values (books s)))"
proof -
  have "map book_id (map_values (books s)) = map fst (books s)"
    using wf_books [OF wf] by (simp add: wf_tbl_def list_all_iff map_values_def)
  moreover have "distinct (map fst (books s))"
    using wf_books [OF wf] by (simp add: wf_tbl_def map_keys_def)
  ultimately show ?thesis by simp
qed

lemma sortBooks_descending:
  assumes d: "distinct (map book_id bs)"
  shows "sorted_wrt (\<lambda>a b. book_id b < book_id a) (sortBooks bs)"
proof -
  let ?k = "\<lambda>book. - book_id book"
  have inj: "inj_on ?k (set bs)"
    using d by (auto simp: distinct_map inj_on_def)
  have "distinct bs" using d by (simp add: distinct_map)
  then have "distinct (map ?k (sort_key ?k bs))"
    using inj by (simp add: distinct_map)
  moreover have "sorted (map ?k (sort_key ?k bs))" by simp
  ultimately have "sorted_wrt (<) (map ?k (sort_key ?k bs))"
    by (simp add: strict_sorted_iff)
  then show ?thesis by (simp add: sortBooks_def sorted_wrt_map)
qed

lemma filterBooks_ids:
  "distinct (map book_id bs) \<Longrightarrow> distinct (map book_id (filterBooks options bs))"
  by (simp add: filterBooks_def Let_def distinct_map_filter split: option.splits)

text \<open>
  C4. The claim: \<^verbatim>\<open>getBooks\<close> filters, sorts by descending id and paginates, a
  limit alone giving the first \<open>limit\<close> books. The guards of the pagination test
  truthiness, so a limit of 0 is a limit not given and the whole list is returned. As
  amended: on every well-formed store the books that pass the filters given (a category
  or an age range that is the empty string counts as not given) are sorted by strictly
  descending id; with a limit \<open>l > 0\<close> and an offset \<open>off \<ge> 0\<close> the result is
  the slice from \<open>off\<close> of length \<open>l\<close>, with a limit \<open>l > 0\<close> alone the
  first \<open>l\<close> books, with no limit or the limit 0 the whole sorted list; and
  \<^verbatim>\<open>getBooks({isNew: true, limit: 2})\<close> returns at most two books, all new, in
  descending order of id.
\<close>

theorem getBooks_filter_sort_paginate:
  "wf_store s \<Longrightarrow>
   (let sorted = sortBooks (filterBooks options (map_values (books s)))
    in set sorted = {b \<in> set (map_values (books s)). passesFilters options b} \<and>
       distinct sorted \<and>
       sorted_wrt (\<lambda>a b. book_id b < book_id a) sorted \<and>
       (case (opt_limit options, opt_offset options) of
          (Some l, Some off) \<Rightarrow>
            0 < l \<and> 0 \<le> off \<longrightarrow> getBooks options s = take (nat l) (drop (nat off) sorted)
        | (Some l, None) \<Rightarrow> 0 < l \<longrightarrow> getBooks options s = take (nat l) sorted
        | (None, _) \<Rightarrow> getBooks options s = sorted) \<and>
       (opt_limit options = Some 0 \<longrightarrow> getBooks options s = sorted)) \<and>
   length (getBooks newestTwo s) \<le> 2 \<and>
   list_all (\<lambda>b. isNew b = Some True) (getBooks newestTwo s) \<and>
   sorted_wrt (\<lambda>a b. book_id b < book_id a) (getBooks newestTwo s)"
proof -
  assume wf: "wf_store s"
  have ids: "distinct (map book_id (map_values (books s)))" by (rule wf_books_distinct [OF wf])
  define sorted where "sorted = sortBooks (filterBooks options (map_values (books s)))"
  have 1: "set sorted = {b \<in> set (map_values (books s)). passesFilters options b}"
    by (simp add: sorted_def sortBooks_def set_filterBooks)
  have 2: "distinct sorted"
    using ids by (simp add: sorted_def sortBooks_def distinct_filterBooks distinct_map)
  have 3: "sorted_wrt (\<lambda>a b. book_id b < book_id a) sorted"
    unfolding sorted_def by (rule sortBooks_descending [OF filterBooks_ids [OF ids]])
  have 4: "case (opt_limit options, opt_offset options) of
          (Some l, Some off) \<Rightarrow>
            0 < l \<and> 0 \<le> off \<longrightarrow> getBooks options s = take (nat l) (drop (nat off) sorted)
        | (Some l, None) \<Rightarrow> 0 < l \<longrightarrow> getBooks options s = take (nat l) sorted
        | (None, _) \<Rightarrow> getBooks options s = sorted"
    by (auto simp: getBooks_def Let_def truthy_number_def sorted_def js_slice_take
        js_slice_take_drop split: option.splits)
  have 5: "opt_limit options = Some 0 \<longrightarrow> getBooks options s = sorted"
    by (simp add: getBooks_def Let_def truthy_number_def sorted_def)
  define news where "news = sortBooks (filterBooks newestTwo (map_values (books s)))"
  have g: "getBooks newestTwo s = take 2 news"
    by (simp add: getBooks_def Let_def truthy_number_def news_def newestTwo_def js_slice_take)
  have "set news \<subseteq> {b. isNew b = Some True}"
    by (auto simp: news_def sortBooks_def set_filterBooks passesFilters_def newestTwo_def)
  then have 6: "list_all (\<lambda>b. isNew b = Some True) (getBooks newestTwo s)"
    unfolding g list_all_iff by (auto dest: in_set_takeD)
  have "sorted_wrt (\<lambda>a b. book_id b < book_id a) news"
    unfolding news_def by (rule sortBooks_descending [OF filterBooks_ids [OF ids]])
  then have 7: "sorted_wrt (\<lambda>a b. book_id b < book_id a) (getBooks newestTwo s)"
    unfolding g by (rule sorted_wrt_take)
  have 8: "length (getBooks newestTwo s) \<le> 2" unfolding g by simp
  from 1 2 3 4 5 6 7 8 show ?thesis
    unfolding Let_def sorted_def [symmetric] by blast
qed

lemma threeBooks_books:
  "map_values (books threeBooks) =
     [\<lparr>book_id = 1, googleId = ''a'', title = ''Princess and the Dragon'',
       author = ''Jane Smith'', description = None, thumbnail = None,
       book_categories = Some [''Adventure''], ageRange = Some ''6-8 years'',
       publishedDate = None, rating = None, isNew = Some True\<rparr>,
      \<lparr>book_id = 2, googleId = ''b'', title = ''Princess and the Dragon'',
       author = ''Jane Smith'', description = None, thumbnail = None,
       book_categories = Some [''Adventure''], ageRange = Some ''6-8 years'',
       publishedDate = None, rating = None, isNew = Some False\<rparr>,
      \<lparr>book_id = 3, googleId = ''c'', title = ''Princess and the Dragon'',
       author = ''Jane Smith'', description = None, thumbnail = None,
       book_categories = Some [''Adventure''], ageRange = Some ''6-8 years'',
       publishedDate = None, rating = None, isNew = Some True\<rparr>]"
  by (simp add: threeBooks_def demoBook_def createBook_def Let_def map_values_def
      newMemStorage_def emptyStorage_def createUser_def createUserPreferences_def
      createAuthor_def createBookSeries_def seedAuthors_def seedSeries_def)

lemma wf_threeBooks: "wf_store threeBooks"
  by (simp add: threeBooks_def wf_createBook wf_newMemStorage)

theorem getBooks_filter_sort_paginate_witness:
  "wf_store threeBooks \<and> opt_limit newestTwo = Some 2 \<and> opt_offset newestTwo = None \<and>
   map book_id (getBooks newestTwo threeBooks) = [3, 1] \<and>
   map book_id (getBooks limitZero threeBooks) = [3, 2, 1]"
proof -
  note t = getBooks_filter_sort_paginate [OF wf_threeBooks]
  have a: "sortBooks (filterBooks newestTwo (map_values (books threeBooks))) =
      [map_values (books threeBooks) ! 2, map_values (books threeBooks) ! 0]"
    by (simp add: threeBooks_books filterBooks_def sortBooks_def newestTwo_def
        truthy_string_def Let_def)
  have b: "sortBooks (filterBooks limitZero (map_values (books threeBooks))) =
      [map_values (books threeBooks) ! 2, map_values (books threeBooks) ! 1,
       map_values (books threeBooks) ! 0]"
    by (simp add: threeBooks_books filterBooks_def sortBooks_def limitZero_def
        truthy_string_def Let_def)
  have "case (opt_limit newestTwo, opt_offset newestTwo) of
          (Some l, Some off) \<Rightarrow>
            0 < l \<and> 0 \<le> off \<longrightarrow> getBooks newestTwo threeBooks =
              take (nat l) (drop (nat off)
                (sortBooks (filterBooks newestTwo (map_values (books threeBooks)))))
        | (Some l, None) \<Rightarrow> 0 < l \<longrightarrow> getBooks newestTwo threeBooks =
            take (nat l) (sortBooks (filterBooks newestTwo (map_values (books threeBooks))))
        | (None, _) \<Rightarrow> getBooks newestTwo threeBooks =
            sortBooks (filterBooks newestTwo (map_values (books threeBooks)))"
    using t [of newestTwo] unfolding Let_def by blast
  moreover have "opt_limit newestTwo = Some 2 \<and> opt_offset newestTwo = None"
    by (simp add: newestTwo_def)
  ultimately have "getBooks newestTwo threeBooks =
      take 2 (sortBooks (filterBooks newestTwo (map_values (books threeBooks))))"
    by simp
  then have 1: "map book_id (getBooks newestTwo threeBooks) = [3, 1]"
    by (simp only: a) (simp add: threeBooks_books)
  have "opt_limit limitZero = Some 0 \<longrightarrow> getBooks limitZero threeBooks =
      sortBooks (filterBooks limitZero (map_values (books threeBooks)))"
    using t [of limitZero] unfolding Let_def by blast
  moreover have "opt_limit limitZero = Some 0" by (simp add: limitZero_def)
  ultimately have "getBooks limitZero threeBooks =
      sortBooks (filterBooks limitZero (map_values (books threeBooks)))"
    by simp
  then have 2: "map book_id (getBooks limitZero threeBooks) = [3, 2, 1]"
    by (simp only: b) (simp add: threeBooks_books)
  from wf_threeBooks 1 2 show ?thesis by (simp add: newestTwo_def)
qed

text \<open>
  With the limit 0 and three books stored, \<^verbatim>\<open>getBooks\<close> returns the three books;
  the first 0 books of the sorted list are none.
\<close>

theorem getBooks_limit_zero_counterexample:
  "map book_id (getBooks limitZero threeBooks) = [3, 2, 1] \<and>
   spec_paginate (opt_limit limitZero) (opt_offset limitZero)
     (sortBooks (filterBooks limitZero (map_values (books threeBooks)))) = []"
  by (simp add: getBooks_def limitZero_def truthy_number_def spec_paginate_def
      threeBooks_books filterBooks_def sortBooks_def truthy_string_def Let_def)

subsection \<open>The matcher's predicate\<close>

lemma newMemStorage_counters:
  "bookId newMemStorage = 1 \<and> notificationId newMemStorage = 1 \<and>
   recentlyViewedId newMemStorage = 1 \<and> followingAuthorId newMemStorage = 1"
  by (simp add: newMemStorage_def emptyStorage_def createUser_def createUserPreferences_def
      createAuthor_def createBookSeries_def seedAuthors_def seedSeries_def Let_def)

lemma scenario_store:
  "books scenario = [(1, \<lparr>book_id = 1, googleId = ''B1'',
       title = ''Princess and the Dragon'', author = ''Jane Smith'', description = None,
       thumbnail = None, book_categories = Some [''Adventure''],
       ageRange = Some ''6-8 years'', publishedDate = None, rating = None,
       isNew = Some True\<rparr>)] \<and>
   users scenario = [(1, \<lparr>user_id = 1, username = ''demo'', password = ''password''\<rparr>)] \<and>
   userPreferences scenario =
     [(1, \<lparr>prefs_id = 1, prefs_userId = 1, preferredCategories = Some [],
           preferredAgeRanges = Some [''6-8 years''], notificationsEnabled = Some True\<rparr>)] \<and>
   notifications scenario = [] \<and> notificationId scenario = 1"
  by (simp add: scenario_def updateUserPreferences_def createBook_def demoBook_def Let_def
      agePreference_def merge_prefs_def map_values_def newMemStorage_relations
      newMemStorage_counters newMemStorage_users)

text \<open>
  C2. The claim: a new book matches exactly when the preferred age ranges are empty or
  contain the book's age range, or the preferred categories are empty or contain one of
  the book's categories. The callback guards the age range with
  \<^verbatim>\<open>book.ageRange && ...\<close>, so a book whose age range is the empty string never
  matches by age range, also when the preferences list the empty string. As amended:
  the two dimensions are combined with OR; the age dimension holds when the list
  \<^verbatim>\<open>ageRanges\<close> of the preference object is absent or empty or the book's age
  range is a non-empty string in it; the category dimension holds when the list
  \<^verbatim>\<open>categories\<close> is absent or empty or one of the book's categories is in it. The
  callback agrees with the claim on every book whose age range is not the empty string,
  and the books a run considers for a user are the new books that match.
\<close>

theorem bookMatches_or:
  "bookMatches preferences book =
     ((optList (ageRanges preferences) = [] \<or>
       (case nr_ageRange book of None \<Rightarrow> False
        | Some a \<Rightarrow> a \<noteq> [] \<and> a \<in> set (optList (ageRanges preferences)))) \<or>
      (optList (categories preferences) = [] \<or>
       list_ex (\<lambda>cat. cat \<in> set (optList (categories preferences)))
         (optList (nr_categories book)))) \<and>
   (nr_ageRange book \<noteq> Some [] \<longrightarrow>
      bookMatches preferences book = spec_matches preferences book) \<and>
   (bookMatches preferences book \<longrightarrow> spec_matches preferences book) \<and>
   set (matchingBooks preferences newBooks) =
     {b \<in> set newBooks. bookMatches preferences b}"
proof -
  have 1: "bookMatches preferences book =
     ((optList (ageRanges preferences) = [] \<or>
       (case nr_ageRange book of None \<Rightarrow> False
        | Some a \<Rightarrow> a \<noteq> [] \<and> a \<in> set (optList (ageRanges preferences)))) \<or>
      (optList (categories preferences) = [] \<or>
       list_ex (\<lambda>cat. cat \<in> set (optList (categories preferences)))
         (optList (nr_categories book))))"
    by (cases "ageRanges preferences"; cases "categories preferences";
        cases "nr_ageRange book"; cases "nr_categories book")
       (auto simp: bookMatches_def ageRangeMatch_def categoryMatch_def js_or_def js_and_def
          optList_def)
  have 2: "nr_ageRange book \<noteq> Some [] \<longrightarrow>
      bookMatches preferences book = spec_matches preferences book"
    unfolding 1 spec_matches_def by (cases "nr_ageRange book") auto
  have 3: "bookMatches preferences book \<longrightarrow> spec_matches preferences book"
    unfolding 1 spec_matches_def by (cases "nr_ageRange book") auto
  have 4: "set (matchingBooks preferences newBooks) =
     {b \<in> set newBooks. bookMatches preferences b}"
    by (simp add: matchingBooks_def)
  from 1 2 3 4 show ?thesis by blast
qed

theorem bookMatches_or_witness:
  "nr_ageRange (toNewRelease (snd (hd (books scenario)))) = Some ''6-8 years'' \<and>
   bookMatches \<lparr>ageRanges = Some [''6-8 years''], categories = Some [''Fantasy'']\<rparr>
     (toNewRelease (snd (hd (books scenario)))) \<and>
   spec_matches \<lparr>ageRanges = Some [''6-8 years''], categories = Some [''Fantasy'']\<rparr>
     (toNewRelease (snd (hd (books scenario))))"
proof -
  have b: "books scenario = [(1, \<lparr>book_id = 1, googleId = ''B1'',
       title = ''Princess and the Dragon'', author = ''Jane Smith'', description = None,
       thumbnail = None, book_categories = Some [''Adventure''],
       ageRange = Some ''6-8 years'', publishedDate = None, rating = None,
       isNew = Some True\<rparr>)]"
    by (simp add: scenario_store)
  have a: "nr_ageRange (toNewRelease (snd (hd (books scenario)))) = Some ''6-8 years''"
    by (simp add: b toNewRelease_def)
  have s: "spec_matches \<lparr>ageRanges = Some [''6-8 years''], categories = Some [''Fantasy'']\<rparr>
     (toNewRelease (snd (hd (books scenario))))"
    by (simp add: b toNewRelease_def spec_matches_def optList_def)
  note t = bookMatches_or [of "\<lparr>ageRanges = Some [''6-8 years''],
      categories = Some [''Fantasy'']\<rparr>" "toNewRelease (snd (hd (books scenario)))" "[]"]
  have "nr_ageRange (toNewRelease (snd (hd (books scenario)))) \<noteq> Some []"
    by (simp add: a)
  with t s have "bookMatches \<lparr>ageRanges = Some [''6-8 years''],
      categories = Some [''Fantasy'']\<rparr> (toNewRelease (snd (hd (books scenario))))"
    by blast
  with a s show ?thesis by blast
qed

text \<open>
  The preferences list the empty string as an age range and the book's age range is the
  empty string (what the import from the book service writes for an unknown range): by
  the claim's predicate the book matches, by the callback it does not.
\<close>

theorem bookMatches_empty_age_counterexample:
  "spec_matches emptyAgePreference unratedBook \<and>
   \<not> bookMatches emptyAgePreference unratedBook"
  by (simp add: spec_matches_def bookMatches_def ageRangeMatch_def categoryMatch_def
      js_or_def js_and_def optList_def emptyAgePreference_def unratedBook_def)

subsection \<open>Running the matcher again\<close>

lemma str_includes_refl: "str_includes x x"
  by (cases x) simp_all

lemma notifyBook_new:
  assumes wf: "wf_store s" and new: "\<not> alreadyNotified user book s"
  shows "notifications (notifyBook user now book s) =
     notifications s @
     [(notificationId s,
       \<lparr>n_id = notificationId s, n_userId = user_id user, n_title = ''New Book Release'',
        n_message = releaseMessage book, n_type = None, n_isRead = False,
        n_createdAt = now, n_bookId = Some (nr_id book)\<rparr>)]"
  using new
  by (simp add: notifyBook_def createNotification_def Let_def
      map_set_new [OF wf_notifications [OF wf]])

lemma notifyBook_notified:
  assumes wf: "wf_store s"
  shows "alreadyNotified user book (notifyBook user now book s)"
proof (cases "alreadyNotified user book s")
  case True
  then show ?thesis by (simp add: notifyBook_def)
next
  case False
  have "str_includes ''New Book Release'' ''New Book Release''" by (rule str_includes_refl)
  then show ?thesis
    unfolding alreadyNotified_def getNotificationsByUserId_def
      notifyBook_new [OF wf False] map_values_def
    by (simp add: refersTo_def)
qed

lemma notifyBook_keeps:
  assumes wf: "wf_store s" and old: "alreadyNotified user b s"
  shows "alreadyNotified user b (notifyBook user now book s)"
proof (cases "alreadyNotified user book s")
  case True
  with old show ?thesis by (simp add: notifyBook_def)
next
  case False
  show ?thesis
    using old
    unfolding alreadyNotified_def getNotificationsByUserId_def
      notifyBook_new [OF wf False] map_values_def
    by simp
qed

lemma fold_notifyBook_keeps:
  "wf_store s \<Longrightarrow> alreadyNotified user b s \<Longrightarrow>
   alreadyNotified user b (fold (notifyBook user now) bs s)"
  by (induction bs arbitrary: s) (simp_all add: notifyBook_keeps wf_notifyBook)

lemma fold_notifyBook_notified:
  "wf_store s \<Longrightarrow> b \<in> set bs \<Longrightarrow> alreadyNotified user b (fold (notifyBook user now) bs s)"
proof (induction bs arbitrary: s)
  case Nil
  then show ?case by simp
next
  case (Cons x bs)
  have wf': "wf_store (notifyBook user now x s)" using Cons.prems(1) by (rule wf_notifyBook)
  show ?case
  proof (cases "b = x")
    case True
    have "alreadyNotified user b (notifyBook user now x s)"
      unfolding True by (rule notifyBook_notified [OF Cons.prems(1)])
    then show ?thesis using wf' by (simp add: fold_notifyBook_keeps)
  next
    case False
    with Cons.prems(2) have "b \<in> set bs" by simp
    then show ?thesis using Cons.IH [OF wf'] by simp
  qed
qed

lemma fold_notifyBook_idle:
  "\<forall>b\<in>set bs. alreadyNotified user b s \<Longrightarrow> fold (notifyBook user now) bs s = s"
  by (induction bs) (simp_all add: notifyBook_def)

lemma getAllUsers_frame:
  "getAllUsers (s\<lparr>notifications := ns, notificationId := c\<rparr>) = getAllUsers s"
  by (simp add: getAllUsers_def getUser_def)

lemma checkForNewBooks_again:
  assumes wf: "wf_store s" and gnr: "ignoresNotifications gnr"
    and gup: "\<forall>uid. ignoresNotifications (gup uid)"
  shows "checkForNewBooks gnr gup t2 (checkForNewBooks gnr gup t1 s) =
         checkForNewBooks gnr gup t1 s"
proof -
  define s1 where "s1 = checkForNewBooks gnr gup t1 s"
  obtain ns c where frame: "s1 = s\<lparr>notifications := ns, notificationId := c\<rparr>"
    unfolding s1_def using checkForNewBooks_frame by blast
  have releases: "gnr s1 = gnr s"
    using gnr unfolding frame ignoresNotifications_def by simp
  have prefs: "gup uid s1 = gup uid s" for uid
    using gup unfolding frame ignoresNotifications_def by simp
  have us: "getAllUsers s1 = getAllUsers s"
    unfolding frame by (rule getAllUsers_frame)
  show ?thesis
  proof (cases "length (gnr s) = 0")
    case True
    then show ?thesis by (simp add: checkForNewBooks_def)
  next
    case False
    show ?thesis
    proof (cases "getUser 1 s")
      case None
      with False show ?thesis by (simp add: checkForNewBooks_def getAllUsers_def Let_def)
    next
      case (Some user)
      then have all: "getAllUsers s = [user]" by (simp add: getAllUsers_def)
      have first: "s1 = notifyUser gup (gnr s) t1 user s"
        unfolding s1_def using False all by (simp add: checkForNewBooks_def Let_def)
      have second: "checkForNewBooks gnr gup t2 s1 = notifyUser gup (gnr s) t2 user s1"
        using False all releases us by (simp add: checkForNewBooks_def Let_def)
      show ?thesis
      proof (cases "gup (user_id user) s")
        case None
        then have "s1 = s" using first by (simp add: notifyUser_def)
        with None second show ?thesis by (simp add: notifyUser_def s1_def)
      next
        case (Some p)
        have run1: "s1 = fold (notifyBook user t1) (matchingBooks p (gnr s)) s"
          using first Some by (simp add: notifyUser_def)
        have "\<forall>b\<in>set (matchingBooks p (gnr s)). alreadyNotified user b s1"
          unfolding run1 using wf by (simp add: fold_notifyBook_notified)
        then have "fold (notifyBook user t2) (matchingBooks p (gnr s)) s1 = s1"
          by (rule fold_notifyBook_idle)
        moreover have "gup (user_id user) s1 = Some p" using prefs Some by simp
        ultimately have "notifyUser gup (gnr s) t2 user s1 = s1"
          by (simp add: notifyUser_def)
        with second show ?thesis by (simp add: s1_def)
      qed
    qed
  qed
qed

text \<open>
  C3. For a user and a new book the matcher creates no notification when the
  notifications of the user hold one of the book's id with a title containing "New Book
  Release", and otherwise appends one with that title, for that user and book, after
  which the check holds. So on a well-formed store a second run made after a first
  returns the store of the first: it creates nothing. The fetch of the new books and of
  the preferences are the two parameters; they are taken not to read the notifications,
  which is the new-book and preference state being the same in both runs.
\<close>

theorem checkForNewBooks_rerun:
  "wf_store s \<Longrightarrow> ignoresNotifications gnr \<Longrightarrow> \<forall>uid. ignoresNotifications (gup uid) \<Longrightarrow>
   (alreadyNotified user book s \<longrightarrow> notifyBook user now book s = s) \<and>
   (\<not> alreadyNotified user book s \<longrightarrow>
      notifications (notifyBook user now book s) =
        notifications s @
        [(notificationId s,
          \<lparr>n_id = notificationId s, n_userId = user_id user,
           n_title = ''New Book Release'', n_message = releaseMessage book, n_type = None,
           n_isRead = False, n_createdAt = now, n_bookId = Some (nr_id book)\<rparr>)]) \<and>
   alreadyNotified user book (notifyBook user now book s) \<and>
   checkForNewBooks gnr gup t2 (checkForNewBooks gnr gup t1 s) =
     checkForNewBooks gnr gup t1 s"
proof -
  assume wf: "wf_store s" and gnr: "ignoresNotifications gnr"
    and gup: "\<forall>uid. ignoresNotifications (gup uid)"
  have 1: "alreadyNotified user book s \<longrightarrow> notifyBook user now book s = s"
    by (simp add: notifyBook_def)
  from 1 notifyBook_new [OF wf, of user book now] notifyBook_notified [OF wf, of user book now]
    checkForNewBooks_again [OF wf gnr gup, of t2 t1]
  show ?thesis by blast
qed

lemma ignoresNotifications_getNewReleases: "ignoresNotifications getNewReleases"
  by (simp add: ignoresNotifications_def getNewReleases_def getBooks_def)

lemma ignoresNotifications_getUserPreference:
  "\<forall>uid. ignoresNotifications (getUserPreference uid)"
  by (simp add: ignoresNotifications_def getUserPreference_def getUserPreferences_def)

lemma wf_scenario: "wf_store scenario"
  by (simp add: scenario_def wf_updateUserPreferences wf_createBook wf_newMemStorage)

lemma scenario_first_run:
  "notifications (checkForNewBooks getNewReleases getUserPreference 100 scenario) =
     [(1, \<lparr>n_id = 1, n_userId = 1, n_title = ''New Book Release'',
           n_message = [CHR 0x22] @ ''Princess and the Dragon'' @ [CHR 0x22] @
             '' by Unknown Author is now available!'',
           n_type = None, n_isRead = False, n_createdAt = 100, n_bookId = Some 1\<rparr>)]"
  by (simp add: checkForNewBooks_def getNewReleases_def getBooks_def filterBooks_def
      sortBooks_def truthy_string_def truthy_number_def toNewRelease_def getAllUsers_def
      getUser_def map_get_def notifyUser_def getUserPreference_def getUserPreferences_def
      matchingBooks_def bookMatches_def ageRangeMatch_def categoryMatch_def js_or_def
      js_and_def notifyBook_def alreadyNotified_def getNotificationsByUserId_def
      createNotification_def releaseMessage_def map_values_def Let_def scenario_store)

theorem checkForNewBooks_rerun_witness:
  "wf_store scenario \<and> ignoresNotifications getNewReleases \<and>
   (\<forall>uid. ignoresNotifications (getUserPreference uid)) \<and>
   length (notifications scenario) = 0 \<and>
   length (notifications (checkForNewBooks getNewReleases getUserPreference 100 scenario)) = 1 \<and>
   length (notifications
     (checkForNewBooks getNewReleases getUserPreference 200
        (checkForNewBooks getNewReleases getUserPreference 100 scenario))) = 1"
proof -
  note t = checkForNewBooks_rerun [OF wf_scenario ignoresNotifications_getNewReleases
      ignoresNotifications_getUserPreference, of _ _ _ 200 100]
  have "checkForNewBooks getNewReleases getUserPreference 200
        (checkForNewBooks getNewReleases getUserPreference 100 scenario) =
        checkForNewBooks getNewReleases getUserPreference 100 scenario"
    using t by blast
  then show ?thesis
    using wf_scenario ignoresNotifications_getNewReleases
      ignoresNotifications_getUserPreference
    by (simp add: scenario_first_run scenario_store)
qed

end
